theory Spec2Isabelle
  imports Main "HOL-Library.Sublist" "HOL-Library.List_Lexorder" "HOL-Library.Char_ord"
begin

section \<open>Values and exceptions\<close>

text \<open>
  Parsed JSON as Python sees it after \<^verbatim>\<open>json.loads\<close>: \<open>JNull\<close> is \<^verbatim>\<open>None\<close>, an object
  is a \<^verbatim>\<open>dict\<close> (its items in insertion order, each key once), an array a \<^verbatim>\<open>list\<close>.
  Numbers are kept as integers; no property below looks inside a number.
\<close>

datatype json =
    JNull
  | JBool bool
  | JNum int
  | JStr string
  | JArr "json list"
  | JObj "(string \<times> json) list"

text \<open>
  The exceptions the modelled code can raise. \<open>HTTPException\<close> carries the status code
  and the detail string; \<open>Failure\<close> stands for any exception (a subclass of
  \<^verbatim>\<open>Exception\<close>) raised inside a library or a subprocess call.
\<close>

datatype error =
    HTTPException nat string
  | TypeError
  | KeyError string
  | IndexError
  | Failure string

section \<open>Fan-out query executor (src/main.py, analyticsQuery)\<close>

text \<open>
  \<^verbatim>\<open>range(lo, hi, step)\<close> for a positive step, and the slice \<^verbatim>\<open>xs[a:b]\<close> for
  \<open>0 \<le> a \<le> b\<close>; a slice never raises, it is cut at the end of the list.
\<close>

definition py_range :: "nat \<Rightarrow> nat \<Rightarrow> nat \<Rightarrow> nat list" where
  "py_range lo hi step = map (\<lambda>k. lo + k * step) [0..<(hi - lo + step - 1) div step]"

definition slice :: "'a list \<Rightarrow> nat \<Rightarrow> nat \<Rightarrow> 'a list" where
  "slice xs a b = take (b - a) (drop a xs)"

definition chunkSize :: nat where
  "chunkSize = 30"

text \<open>
  \<^verbatim>\<open>chunks = [sorted(workspaces)[x:x+chunkSize] for x in range(0, len(workspaces), chunkSize)]\<close>.
  Python compares strings by code point, lexicographically: the order of \<open>string\<close> here.
\<close>

definition chunks_of :: "string list \<Rightarrow> string list list" where
  "chunks_of workspaces =
     map (\<lambda>x. slice (sort workspaces) x (x + chunkSize)) (py_range 0 (length workspaces) chunkSize)"

text \<open>
  The command of one chunk. \<^verbatim>\<open>chunk[0]\<close> raises IndexError on an empty chunk;
  \<^verbatim>\<open>chunk[1:]\<close> is the tail.
\<close>

fun chunk_cmd :: "string list \<Rightarrow> string \<Rightarrow> string \<Rightarrow> error + string list" where
  "chunk_cmd [] query timespan = Inl IndexError"
| "chunk_cmd (c # cs) query timespan =
     Inr ([''monitor'', ''log-analytics'', ''query'', ''--workspace'', c,
           ''--analytics-query'', query, ''--timespan'', timespan]
          @ (if length (c # cs) > 1 then [''--workspaces''] @ cs else []))"

text \<open>
  The first loop: one future per chunk, in chunk order. \<open>run\<close> is what
  \<^verbatim>\<open>executor.submit(azcli, *cmd)\<close> followed by \<^verbatim>\<open>future.result()\<close> gives for a command:
  the exception raised in the worker, or the value returned.
\<close>

fun submit_all :: "(string list \<Rightarrow> error + json) \<Rightarrow> string list list \<Rightarrow> string \<Rightarrow> string
    \<Rightarrow> error + (error + json) list" where
  "submit_all run [] query timespan = Inr []"
| "submit_all run (chunk # chunks) query timespan =
     (case chunk_cmd chunk query timespan of
        Inl e \<Rightarrow> Inl e
      | Inr cmd \<Rightarrow>
          (case submit_all run chunks query timespan of
             Inl e \<Rightarrow> Inl e
           | Inr results \<Rightarrow> Inr (run cmd # results)))"

text \<open>
  \<^verbatim>\<open>output += v\<close> on a list is \<^verbatim>\<open>list.extend(v)\<close>: it appends the elements of an
  iterable (the rows of a list, the keys of a dict, the characters of a string) and
  raises TypeError, leaving the list as it was, when \<open>v\<close> is not iterable.
\<close>

fun iadd :: "json list \<Rightarrow> json \<Rightarrow> error + json list" where
  "iadd output (JArr rows) = Inr (output @ rows)"
| "iadd output (JObj items) = Inr (output @ map (\<lambda>kv. JStr (fst kv)) items)"
| "iadd output (JStr s) = Inr (output @ map (\<lambda>c. JStr [c]) s)"
| "iadd output JNull = Inl TypeError"
| "iadd output (JBool b) = Inl TypeError"
| "iadd output (JNum n) = Inl TypeError"

text \<open>
  The second loop, with its try/except. The state is the \<open>output\<close> list and the
  exceptions printed so far.
\<close>

fun collect :: "json list \<times> error list \<Rightarrow> (error + json) list \<Rightarrow> json list \<times> error list" where
  "collect (output, printed) [] = (output, printed)"
| "collect (output, printed) (future # results) =
     (case future of
        Inl e \<Rightarrow> collect (output, printed @ [e]) results
      | Inr v \<Rightarrow>
          (case iadd output v of
             Inl e \<Rightarrow> collect (output, printed @ [e]) results
           | Inr output' \<Rightarrow> collect (output', printed) results))"

definition analyticsQuery :: "(string list \<Rightarrow> error + json) \<Rightarrow> string list \<Rightarrow> string \<Rightarrow> string
    \<Rightarrow> error + (json list \<times> error list)" where
  "analyticsQuery run workspaces query timespan =
     (case submit_all run (chunks_of workspaces) query timespan of
        Inl e \<Rightarrow> Inl e
      | Inr results \<Rightarrow> Inr (collect ([], []) results))"

text \<open>
  \<^verbatim>\<open>azcli\<close> of src/main.py without its cache decorator: \<open>check_output\<close> is the
  subprocess call (an exception or the captured bytes), \<open>json_loads\<close> the parser.
\<close>

definition azcli :: "(string list \<Rightarrow> error + string) \<Rightarrow> (string \<Rightarrow> error + json) \<Rightarrow> string list
    \<Rightarrow> error + json" where
  "azcli check_output json_loads cmd =
     (case check_output ([''az''] @ cmd @ [''--only-show-errors'', ''-o'', ''json'']) of
        Inl e \<Rightarrow> Inl e
      | Inr result \<Rightarrow> if result = [] then Inr JNull else json_loads result)"


text \<open>
  The rows one future contributes to the aggregate: those of a returned iterable, none
  for an exception and none for a value that \<^verbatim>\<open>+=\<close> rejects.
\<close>

definition rows_of :: "error + json \<Rightarrow> json list" where
  "rows_of future =
     (case future of
        Inl e \<Rightarrow> []
      | Inr v \<Rightarrow> (case iadd [] v of Inl e \<Rightarrow> [] | Inr rows \<Rightarrow> rows))"

section \<open>Strings and dictionaries\<close>

text \<open>
  \<^verbatim>\<open>str.lower\<close> on header names (ASCII), \<^verbatim>\<open>str.startswith\<close>,
  \<^verbatim>\<open>str.replace(old, new, 1)\<close> (the first occurrence only) and \<^verbatim>\<open>str.find\<close>
  (the lowest index of an occurrence, \<open>-1\<close> when there is none).
\<close>

definition lower_char :: "char \<Rightarrow> char" where
  "lower_char c =
     (if CHR ''A'' \<le> c \<and> c \<le> CHR ''Z'' then char_of (of_char c + (32 :: nat)) else c)"

definition lower :: "string \<Rightarrow> string" where
  "lower s = map lower_char s"

definition startswith :: "string \<Rightarrow> string \<Rightarrow> bool" where
  "startswith s p = prefix p s"

fun replace1 :: "string \<Rightarrow> string \<Rightarrow> string \<Rightarrow> string" where
  "replace1 old new [] = (if old = [] then new else [])"
| "replace1 old new (c # s) =
     (if startswith (c # s) old then new @ drop (length old) (c # s)
      else c # replace1 old new s)"

fun str_find :: "string \<Rightarrow> string \<Rightarrow> int" where
  "str_find [] sub = (if sub = [] then 0 else - 1)"
| "str_find (c # s) sub =
     (if startswith (c # s) sub then 0
      else (let r = str_find s sub in if r = - 1 then - 1 else r + 1))"

text \<open>
  A \<^verbatim>\<open>dict\<close> is the list of its items in insertion order. \<^verbatim>\<open>d[k] = v\<close> overwrites the
  value of a key that is present, where it stands, and appends a new key;
  \<^verbatim>\<open>d.update(other)\<close> does so for each item of \<open>other\<close> in turn.
\<close>

fun setitem :: "('k \<times> 'v) list \<Rightarrow> 'k \<Rightarrow> 'v \<Rightarrow> ('k \<times> 'v) list" where
  "setitem [] k v = [(k, v)]"
| "setitem (item # d) k v = (if fst item = k then (k, v) # d else item # setitem d k v)"

fun dict_update :: "('k \<times> 'v) list \<Rightarrow> ('k \<times> 'v) list \<Rightarrow> ('k \<times> 'v) list" where
  "dict_update d [] = d"
| "dict_update d (item # other) = dict_update (setitem d (fst item) (snd item)) other"

text \<open>\<^verbatim>\<open>data[key]\<close> on a parsed value: only a dict can be indexed by a string.\<close>

fun getitem :: "json \<Rightarrow> string \<Rightarrow> error + json" where
  "getitem (JObj items) k = (case map_of items k of None \<Rightarrow> Inl (KeyError k) | Some v \<Rightarrow> Inr v)"
| "getitem v k = Inl TypeError"

section \<open>Reverse proxy dispatcher (src/siem_query_utils/proxy.py)\<close>

text \<open>
  Headers are the items of a header mapping: (name, value) pairs, each name once. The
  inner \<^verbatim>\<open>for ... break ... else\<close> of \<^verbatim>\<open>filter_headers\<close> is \<open>matches_prefix\<close>: it is
  true when the loop leaves through \<^verbatim>\<open>break\<close>.
\<close>

type_synonym headers = "(string \<times> string) list"

fun matches_prefix :: "string \<Rightarrow> string list \<Rightarrow> bool" where
  "matches_prefix key [] = False"
| "matches_prefix key (p # filtered_prefixes) =
     (if startswith (lower key) p then True else matches_prefix key filtered_prefixes)"

fun filter_loop :: "headers \<Rightarrow> string list \<Rightarrow> headers \<Rightarrow> headers" where
  "filter_loop [] filtered_prefixes clean_headers = clean_headers"
| "filter_loop (item # items) filtered_prefixes clean_headers =
     filter_loop items filtered_prefixes
       (if matches_prefix (fst item) filtered_prefixes then clean_headers
        else setitem clean_headers (fst item) (snd item))"

definition filter_headers :: "headers \<Rightarrow> string list \<Rightarrow> headers" where
  "filter_headers hs filtered_prefixes = filter_loop hs filtered_prefixes []"

definition default_filtered_prefixes :: "string list" where
  "default_filtered_prefixes =
     [''host'', ''cookie'', ''x-ms-'', ''x-arr-'', ''disguised-host'', ''referer'']"

definition strip_output_headers :: "string list" where
  "strip_output_headers =
     [''set-cookie'', ''transfer-encoding'', ''content-length'', ''server'', ''date'', ''connection'']"

text \<open>
  The inbound request as \<^verbatim>\<open>upstream\<close> reads it, the upstream's answer (\<open>origin\<close>; its
  header names in lower case, as the HTTP client gives them), the resolved client (its
  base URL as a string and its \<open>stream\<close> call: method, path and query, body, headers)
  and the response handed back.
\<close>

record request =
  req_method :: string
  req_headers :: headers
  req_query :: string
  root_path :: string

record origin =
  status_code :: nat
  origin_headers :: headers
  iter_raw :: "string list"

record upstream_client =
  base_url :: string
  stream :: "string \<Rightarrow> string \<times> string \<Rightarrow> string \<Rightarrow> headers \<Rightarrow> error + origin"

record response =
  resp_status_code :: nat
  resp_body :: string
  resp_headers :: headers

text \<open>The headers given to the upstream: \<^verbatim>\<open>filter_headers(request.headers)\<close>.\<close>

definition forwarded_headers :: "request \<Rightarrow> headers" where
  "forwarded_headers request = filter_headers (req_headers request) default_filtered_prefixes"

text \<open>
  The redirect block of \<^verbatim>\<open>upstream\<close>: \<open>client_base\<close> is \<^verbatim>\<open>str(upstream_client.base_url)\<close>,
  the local \<^verbatim>\<open>base_url\<close> is that string followed by a slash.
\<close>

definition rewrite_location :: "string \<Rightarrow> string \<Rightarrow> string \<Rightarrow> headers \<Rightarrow> error + headers" where
  "rewrite_location client_base root pfx hs =
     (case map_of hs ''location'' of
        None \<Rightarrow> Inr hs
      | Some location \<Rightarrow>
          (let base = client_base @ ''/'' in
           if startswith location base then
             Inr (setitem hs ''location'' (root @ ''/'' @ pfx @ ''/'' @ replace1 base [] location))
           else if startswith location ''http'' then
             Inl (HTTPException 403 (''Redirect to '' @ location @ '' not allowed.''))
           else Inr hs))"

text \<open>\<^verbatim>\<open>str(n)\<close> of a length: the decimal digits.\<close>

fun str_nat :: "nat \<Rightarrow> string" where
  "str_nat n =
     (if n < 10 then [char_of (48 + n)] else str_nat (n div 10) @ [char_of (48 + n mod 10)])"

declare str_nat.simps [simp del]

text \<open>
  \<^verbatim>\<open>response.init_headers(headers=headers)\<close> of the web framework's \<^verbatim>\<open>Response\<close>, for a
  response made with \<^verbatim>\<open>Response(status_code=...)\<close> (no media type, so no content type
  is added) whose body has been set: the given headers, and after them a
  \<^verbatim>\<open>content-length\<close> with the length of the body, unless the headers have one or the
  status code is below 200, 204 or 304. The names it gets here are in lower case
  already, so its \<^verbatim>\<open>k.lower()\<close> leaves them as they are.
\<close>

definition init_headers :: "nat \<Rightarrow> string \<Rightarrow> headers \<Rightarrow> headers" where
  "init_headers status body hs =
     (let populate_content_length = (''content-length'' \<notin> set (map fst hs))
      in if populate_content_length \<and> \<not> (status < 200 \<or> status \<in> {204, 304})
         then hs @ [(''content-length'', str_nat (length body))]
         else hs)"

text \<open>
  The body of the \<^verbatim>\<open>with\<close> block of \<^verbatim>\<open>upstream\<close>, from the answer of the upstream
  to the response: the redirect block, then status code, body, and the filtered
  headers through \<^verbatim>\<open>init_headers\<close>.
\<close>

definition relay :: "upstream_client \<Rightarrow> request \<Rightarrow> string \<Rightarrow> origin \<Rightarrow> error + response" where
  "relay c request pfx org =
     (case rewrite_location (base_url c) (root_path request) pfx (origin_headers org) of
        Inl e \<Rightarrow> Inl e
      | Inr hs' \<Rightarrow>
          Inr \<lparr>resp_status_code = status_code org,
               resp_body = concat (iter_raw org),
               resp_headers =
                 init_headers (status_code org) (concat (iter_raw org))
                   (filter_headers hs' strip_output_headers)\<rparr>)"

text \<open>
  \<^verbatim>\<open>upstream\<close>. \<open>cl\<close> is the outcome of \<^verbatim>\<open>client(request, prefix)\<close>: the 404 or 403 it
  raises, or the client.
\<close>

definition upstream :: "request \<Rightarrow> string \<Rightarrow> string \<Rightarrow> string \<Rightarrow> error + upstream_client
    \<Rightarrow> error + response" where
  "upstream request pfx path body cl =
     (let hs = forwarded_headers request in
      case cl of
        Inl e \<Rightarrow> Inl e
      | Inr c \<Rightarrow>
          (case stream c (req_method request) (path, req_query request) body hs of
             Inl e \<Rightarrow> Inl e
           | Inr org \<Rightarrow> relay c request pfx org))"

section \<open>Session store (load_session of proxy.py and azcli.py, the same text in both)\<close>

text \<open>
  A configuration is a \<^verbatim>\<open>dict\<close> from names to parsed values. The hard-coded default is
  \<^verbatim>\<open>json.loads(default_session)\<close>.
\<close>

type_synonym config = "(string \<times> json) list"

definition default_session :: config where
  "default_session =
     [(''proxy_httpbin'', JObj [(''base_url'', JStr ''https://httpbin.org'')]),
      (''proxy_jupyter'', JObj [(''base_url'', JStr ''https://wagov.github.io/wasoc-jupyterlite'')]),
      (''main_path'', JStr ''/jupyter/lab/index.html'')]"

text \<open>
  The library calls \<^verbatim>\<open>load_session\<close> makes are parameters:
  \<^item> \<open>b64json_loads\<close> is \<^verbatim>\<open>json.loads(base64.b64decode(data))\<close> on a blob in the session
    format (base64 of a JSON object): the items of the object, or \<open>None\<close> when either
    call raises;
  \<^item> \<open>b64json_dumps\<close> is \<^verbatim>\<open>base64.b64encode(json.dumps(v).encode("utf8"))\<close> on a value
    whose keys are already in order;
  \<^item> \<open>sha256_hexdigest\<close> is \<^verbatim>\<open>hashlib.sha256(b).hexdigest()\<close>;
  \<^item> \<open>httpx_client\<close> is the construction of the upstream client from a proxy entry: the
    exception it raises, or the client (an object that is true in \<^verbatim>\<open>assert\<close>).
\<close>

record 'c library =
  b64json_loads :: "string \<Rightarrow> config option"
  b64json_dumps :: "json \<Rightarrow> string"
  sha256_hexdigest :: "string \<Rightarrow> string"
  httpx_client :: "json \<Rightarrow> error + 'c"

text \<open>\<^verbatim>\<open>sort_keys=True\<close>: the items of every dict, at any depth, ordered by key.\<close>

fun sort_keys :: "json \<Rightarrow> json" where
  "sort_keys (JObj items) = JObj (sort_key fst (map (\<lambda>kv. (fst kv, sort_keys (snd kv))) items))"
| "sort_keys (JArr vs) = JArr (map sort_keys vs)"
| "sort_keys v = v"

definition encode_session :: "'c library \<Rightarrow> config \<Rightarrow> string" where
  "encode_session lib session = b64json_dumps lib (sort_keys (JObj session))"

record session =
  session_config :: config
  session_base64 :: string
  session_apis :: config
  session_key :: string

text \<open>The validation loop over \<^verbatim>\<open>config.items()\<close>, filling \<^verbatim>\<open>session["apis"]\<close>.\<close>

fun validate :: "'c library \<Rightarrow> config \<Rightarrow> config \<Rightarrow> error + config" where
  "validate lib [] apis = Inr apis"
| "validate lib (entry # items) apis =
     (if startswith (fst entry) ''proxy_'' then
        (case httpx_client lib (snd entry) of
           Inl e \<Rightarrow> Inl e
         | Inr c \<Rightarrow>
             (case getitem (snd entry) ''base_url'' of
                Inl e \<Rightarrow> Inl e
              | Inr b \<Rightarrow> validate lib items (setitem apis (replace1 ''proxy_'' [] (fst entry)) b)))
      else validate lib items apis)"

text \<open>
  \<^verbatim>\<open>load_session(data)\<close> for a given blob. The parameter \<^verbatim>\<open>config\<close> has a default value
  that Python evaluates once, when the function is defined; every call that leaves
  it out works on that one dict, and \<^verbatim>\<open>config.update\<close> changes it. So the dict is
  state: the call takes its current content and returns the new content beside the
  outcome. In a fresh process it is \<open>default_session\<close>.
\<close>

definition load_session :: "'c library \<Rightarrow> string \<Rightarrow> config \<Rightarrow> (error + session) \<times> config" where
  "load_session lib data config =
     (case b64json_loads lib data of
        None \<Rightarrow> (Inl (HTTPException 500 ''Failed to load session data''), config)
      | Some decoded \<Rightarrow>
          (let config' = dict_update config decoded;
               b64 = encode_session lib config';
               k = sha256_hexdigest lib b64
           in case validate lib config' [] of
                Inl e \<Rightarrow> (Inl e, config')
              | Inr apis \<Rightarrow>
                  (Inr \<lparr>session_config = config', session_base64 = b64,
                        session_apis = apis, session_key = k\<rparr>, config')))"

text \<open>Successive calls in one process, each on the dict the one before left.\<close>

fun resolve_all :: "'c library \<Rightarrow> string list \<Rightarrow> config \<Rightarrow> (error + session) list" where
  "resolve_all lib [] config = []"
| "resolve_all lib (data # blobs) config =
     (case load_session lib data config of
        (outcome, config') \<Rightarrow> outcome # resolve_all lib blobs config')"

text \<open>
  A library for closed evaluations. It decodes four blobs: \<^verbatim>\<open>{}\<close>,
  \<^verbatim>\<open>{"main_path": "/x"}\<close>, \<^verbatim>\<open>{"proxy_bad": {"timeout": 1}}\<close> and
  \<^verbatim>\<open>{"proxy_docs": {"base_url": "https://docs.example"}}\<close>. Its client constructor
  raises TypeError (as \<^verbatim>\<open>Client(**proxy, timeout=None)\<close> does) on an entry that is
  not a dict or that has a \<^verbatim>\<open>timeout\<close> of its own. The encoder and the hash are
  trivial: the evaluations below do not look at keys.
\<close>

definition test_library :: "unit library" where
  "test_library =
     \<lparr>b64json_loads = (\<lambda>data.
          if data = ''e30='' then Some []
          else if data = ''eyJtYWluX3BhdGgiOiAiL3gifQ=='' then Some [(''main_path'', JStr ''/x'')]
          else if data = ''eyJwcm94eV9iYWQiOiB7InRpbWVvdXQiOiAxfX0='' then
            Some [(''proxy_bad'', JObj [(''timeout'', JNum 1)])]
          else if data = ''eyJwcm94eV9kb2NzIjogeyJiYXNlX3VybCI6ICJodHRwczovL2RvY3MuZXhhbXBsZSJ9fQ=='' then
            Some [(''proxy_docs'', JObj [(''base_url'', JStr ''https://docs.example'')])]
          else None),
      b64json_dumps = (\<lambda>v. []),
      sha256_hexdigest = (\<lambda>b. b),
      httpx_client = (\<lambda>proxy.
          case proxy of
            JObj items \<Rightarrow> if ''timeout'' \<in> fst ` set items then Inl TypeError else Inr ()
          | _ \<Rightarrow> Inl TypeError)\<rparr>"

section \<open>simpleQuery (src/main.py)\<close>

record workspace =
  subscription :: string
  customerId :: string
  resourceGroup :: string
  name :: string

text \<open>
  \<^verbatim>\<open>str(workspace)\<close> of the named tuple; \<open>repr\<close> is Python's \<^verbatim>\<open>repr\<close> of a field.
\<close>

definition workspace_str :: "(string \<Rightarrow> string) \<Rightarrow> workspace \<Rightarrow> string" where
  "workspace_str repr w =
     ''Workspace(subscription='' @ repr (subscription w) @ '', customerId='' @ repr (customerId w)
     @ '', resourceGroup='' @ repr (resourceGroup w) @ '', name='' @ repr (name w) @ '')''"

text \<open>
  The loop of \<^verbatim>\<open>simpleQuery\<close>; an \<^verbatim>\<open>int\<close> is true when it is not zero. Falling out of
  the loop returns \<^verbatim>\<open>None\<close>. \<open>listing\<close> is the outcome of \<^verbatim>\<open>listWorkspaces()\<close>.
\<close>

fun simpleQuery_loop :: "(string \<Rightarrow> string) \<Rightarrow> (string list \<Rightarrow> error + json) \<Rightarrow> workspace list
    \<Rightarrow> string \<Rightarrow> string \<Rightarrow> error + (json list \<times> error list) option" where
  "simpleQuery_loop repr run [] query nm = Inr None"
| "simpleQuery_loop repr run (w # ws) query nm =
     (if str_find (workspace_str repr w) nm \<noteq> 0 then
        (case analyticsQuery run [customerId w] query ''P7D'' of
           Inl e \<Rightarrow> Inl e
         | Inr r \<Rightarrow> Inr (Some r))
      else simpleQuery_loop repr run ws query nm)"

definition simpleQuery :: "(string \<Rightarrow> string) \<Rightarrow> (string list \<Rightarrow> error + json)
    \<Rightarrow> error + workspace list \<Rightarrow> string \<Rightarrow> string \<Rightarrow> error + (json list \<times> error list) option" where
  "simpleQuery repr run listing query nm =
     (case listing of
        Inl e \<Rightarrow> Inl e
      | Inr ws \<Rightarrow> simpleQuery_loop repr run ws query nm)"

section \<open>TTL cache (src/main.py, cache)\<close>

text \<open>
  The decorated function runs in a world \<open>'w\<close> (the clock, the subprocesses, whatever it
  reads and changes): \<open>func args w\<close> gives the exception or the value and the world after
  the call. \<open>monotonic w\<close> is what \<^verbatim>\<open>time.monotonic()\<close> reads in \<open>w\<close>, in clock ticks.
  Only a call of \<open>func\<close> changes the world, so a world that comes back unchanged means
  \<open>func\<close> was not called.
\<close>

record 'v result =
  "value" :: 'v
  death :: int

text \<open>
  \<^verbatim>\<open>functools.lru_cache(maxsize)\<close> for an integer \<open>maxsize\<close>, after the reference
  implementation of the standard library: the entries in a queue from the least
  recently used (the head) to the most recently used (the last), and the flag
  \<^verbatim>\<open>full\<close>. A hit moves the entry to the end of the queue. A miss calls the function; an
  exception stores nothing; a result goes to the end of the queue, in place of the
  head when the cache is full. With \<open>maxsize = 0\<close> nothing is stored.
\<close>

record ('k, 'r) lru =
  queue :: "('k \<times> 'r) list"
  full :: bool

definition cache_clear :: "('k, 'r) lru" where
  "cache_clear = \<lparr>queue = [], full = False\<rparr>"

definition lru_cache :: "nat \<Rightarrow> ('k \<Rightarrow> 'w \<Rightarrow> (error + 'r) \<times> 'w) \<Rightarrow> 'k \<Rightarrow> ('k, 'r) lru \<times> 'w
    \<Rightarrow> (error + 'r) \<times> ('k, 'r) lru \<times> 'w" where
  "lru_cache maxsize user_function key cw =
     (case cw of (c, w) \<Rightarrow>
        if maxsize = 0 then
          (case user_function key w of (r, w') \<Rightarrow> (r, c, w'))
        else
          (case map_of (queue c) key of
             Some r \<Rightarrow> (Inr r, c\<lparr>queue := filter (\<lambda>kv. fst kv \<noteq> key) (queue c) @ [(key, r)]\<rparr>, w)
           | None \<Rightarrow>
               (case user_function key w of
                  (Inl e, w') \<Rightarrow> (Inl e, c, w')
                | (Inr r, w') \<Rightarrow>
                    if full c then (Inr r, c\<lparr>queue := tl (queue c) @ [(key, r)]\<rparr>, w')
                    else (Inr r, \<lparr>queue = queue c @ [(key, r)],
                                  full = (length (queue c @ [(key, r)]) \<ge> maxsize)\<rparr>, w'))))"

text \<open>\<^verbatim>\<open>cached_func\<close> before \<^verbatim>\<open>lru_cache\<close> wraps it: the value with its time of death.\<close>

definition cached_func :: "int \<Rightarrow> ('k \<Rightarrow> 'w \<Rightarrow> (error + 'v) \<times> 'w) \<Rightarrow> ('w \<Rightarrow> int) \<Rightarrow> 'k \<Rightarrow> 'w
    \<Rightarrow> (error + 'v result) \<times> 'w" where
  "cached_func ttl func monotonic args w =
     (case func args w of
        (Inl e, w') \<Rightarrow> (Inl e, w')
      | (Inr v, w') \<Rightarrow> (Inr \<lparr>value = v, death = monotonic w' + ttl\<rparr>, w'))"

text \<open>
  \<^verbatim>\<open>result.value = ...; result.death = ...\<close> writes into the object the cache holds for
  the key (when it holds one): the entry changes where it stands.
\<close>

definition assign :: "'k \<Rightarrow> 'r \<Rightarrow> ('k, 'r) lru \<Rightarrow> ('k, 'r) lru" where
  "assign key r c = c\<lparr>queue := map (\<lambda>kv. if fst kv = key then (key, r) else kv) (queue c)\<rparr>"

definition wrapper :: "nat \<Rightarrow> int \<Rightarrow> ('k \<Rightarrow> 'w \<Rightarrow> (error + 'v) \<times> 'w) \<Rightarrow> ('w \<Rightarrow> int) \<Rightarrow> 'k
    \<Rightarrow> ('k, 'v result) lru \<times> 'w \<Rightarrow> (error + 'v) \<times> ('k, 'v result) lru \<times> 'w" where
  "wrapper maxsize ttl func monotonic args cw =
     (case lru_cache maxsize (cached_func ttl func monotonic) args cw of
        (Inl e, c', w') \<Rightarrow> (Inl e, c', w')
      | (Inr r, c', w') \<Rightarrow>
          if death r < monotonic w' then
            (case func args w' of
               (Inl e, w'') \<Rightarrow> (Inl e, c', w'')
             | (Inr v, w'') \<Rightarrow>
                 (Inr v, assign args \<lparr>value = v, death = monotonic w'' + ttl\<rparr> c', w''))
          else (Inr (value r), c', w'))"

text \<open>
  What holds of every cache state that calls can build from the empty cache: each key
  once, at most \<open>maxsize\<close> entries, and the flag says whether the bound is reached.
\<close>

definition lru_inv :: "nat \<Rightarrow> ('k, 'r) lru \<Rightarrow> bool" where
  "lru_inv maxsize c \<longleftrightarrow>
     distinct (map fst (queue c)) \<and> length (queue c) \<le> maxsize
     \<and> (full c \<longleftrightarrow> 0 < maxsize \<and> maxsize \<le> length (queue c))"

text \<open>
  A test world for closed evaluations: the clock and the number of calls of the
  function so far. The function returns how many calls came before it, and the clock
  is set by the caller between reads.
\<close>

definition count_calls :: "string \<Rightarrow> int \<times> nat \<Rightarrow> (error + nat) \<times> (int \<times> nat)" where
  "count_calls args w = (Inr (snd w), (fst w, Suc (snd w)))"

definition at_time :: "int \<Rightarrow> 'c \<times> int \<times> nat \<Rightarrow> 'c \<times> int \<times> nat" where
  "at_time t cw = (fst cw, t, snd (snd cw))"


section \<open>The cache of azcli.py\<close>

text \<open>
  \<^verbatim>\<open>cache = Cache(maxsize=25600, ttl=300)\<close> is the class \<^verbatim>\<open>Cache\<close> of the package cacheout,
  which is not part of this repository. The definitions follow the documented
  behaviour of that class, a first-in first-out cache: the entries stand in the
  order they were set, each with its expiry time when it has one; \<^verbatim>\<open>get\<close> returns the
  value of a key that is present and not expired and moves nothing, and removes an
  entry it finds expired; \<^verbatim>\<open>set\<close> of a key that is absent first drops the expired
  entries and then, while the cache is full, the oldest entry; the entry it stores
  gets an expiry time only for a ttl above zero. \<^verbatim>\<open>memoize\<close> is get, and on a miss the
  function and set.
\<close>

type_synonym ('k, 'v) cacheout = "('k \<times> 'v \<times> int option) list"

definition expired :: "int \<Rightarrow> int option \<Rightarrow> bool" where
  "expired now expires = (case expires of None \<Rightarrow> False | Some e \<Rightarrow> e \<le> now)"

definition cacheout_get :: "int \<Rightarrow> 'k \<Rightarrow> ('k, 'v) cacheout \<Rightarrow> 'v option \<times> ('k, 'v) cacheout" where
  "cacheout_get now key c =
     (case map_of c key of
        None \<Rightarrow> (None, c)
      | Some (v, expires) \<Rightarrow>
          if expired now expires then (None, filter (\<lambda>e. fst e \<noteq> key) c) else (Some v, c))"

definition cacheout_evict :: "nat \<Rightarrow> int \<Rightarrow> ('k, 'v) cacheout \<Rightarrow> ('k, 'v) cacheout" where
  "cacheout_evict maxsize now c =
     (let live = filter (\<lambda>e. \<not> expired now (snd (snd e))) c
      in if maxsize = 0 then live else drop (length live + 1 - maxsize) live)"

definition cacheout_set :: "nat \<Rightarrow> int \<Rightarrow> int \<Rightarrow> 'k \<Rightarrow> 'v \<Rightarrow> ('k, 'v) cacheout \<Rightarrow> ('k, 'v) cacheout" where
  "cacheout_set maxsize ttl now key v c =
     (let c' = (if key \<in> fst ` set c then c else cacheout_evict maxsize now c)
      in filter (\<lambda>e. fst e \<noteq> key) c' @ [(key, v, if 0 < ttl then Some (now + ttl) else None)])"

definition memoize :: "nat \<Rightarrow> int \<Rightarrow> ('k \<Rightarrow> 'w \<Rightarrow> (error + 'v) \<times> 'w) \<Rightarrow> ('w \<Rightarrow> int) \<Rightarrow> 'k
    \<Rightarrow> ('k, 'v) cacheout \<times> 'w \<Rightarrow> (error + 'v) \<times> ('k, 'v) cacheout \<times> 'w" where
  "memoize maxsize ttl func timer key cw =
     (case cw of (c, w) \<Rightarrow>
        (case cacheout_get (timer w) key c of
           (Some v, c') \<Rightarrow> (Inr v, c', w)
         | (None, c') \<Rightarrow>
             (case func key w of
                (Inl e, w') \<Rightarrow> (Inl e, c', w')
              | (Inr v, w') \<Rightarrow> (Inr v, cacheout_set maxsize ttl (timer w') key v c', w'))))"



section \<open>Properties of the fan-out executor\<close>

lemma concat_slices:
  "concat (map (\<lambda>k. take n (drop (k * n) xs)) [0..<m]) = take (m * n) xs"
proof (induction m)
  case 0
  show ?case by simp
next
  case (Suc m)
  have "take (m * n + n) xs = take (m * n) xs @ take n (drop (m * n) xs)"
    by (simp add: take_add)
  with Suc show ?case by (simp add: add.commute)
qed

lemma chunks_of_alt:
  "chunks_of ws =
     map (\<lambda>k. take chunkSize (drop (k * chunkSize) (sort ws))) [0..<(length ws + 29) div 30]"
  by (simp add: chunks_of_def py_range_def slice_def chunkSize_def comp_def add.commute)

lemma concat_chunks_of: "concat (chunks_of ws) = sort ws"
proof -
  have "length ws \<le> (length ws + 29) div 30 * 30" by arith
  then show ?thesis
    by (simp add: chunks_of_alt concat_slices chunkSize_def)
qed

lemma length_chunks_of: "length (chunks_of ws) = (length ws + 29) div 30"
  by (simp add: chunks_of_alt)

lemma chunk_bounds:
  assumes "c \<in> set (chunks_of ws)"
  shows "length c \<le> 30 \<and> c \<noteq> []"
proof -
  from assms obtain k where k: "k < (length ws + 29) div 30"
    and c: "c = take 30 (drop (k * 30) (sort ws))"
    by (auto simp: chunks_of_alt chunkSize_def)
  from k have "k * 30 < length ws" by arith
  with c show ?thesis by simp
qed

lemma chunks_nonempty: "[] \<notin> set (chunks_of ws)"
  using chunk_bounds by blast

lemma chunk_cmd_nonempty:
  "c \<noteq> [] \<Longrightarrow> chunk_cmd c q t =
     Inr ([''monitor'', ''log-analytics'', ''query'', ''--workspace'', hd c,
           ''--analytics-query'', q, ''--timespan'', t]
          @ (if tl c = [] then [] else ''--workspaces'' # tl c))"
  by (cases c) auto

lemma chunks_disjoint:
  assumes "distinct ws" "i < j" "j < length (chunks_of ws)"
  shows "set (chunks_of ws ! i) \<inter> set (chunks_of ws ! j) = {}"
proof -
  let ?cs = "chunks_of ws"
  have d: "distinct (concat ?cs)" using assms(1) by (simp add: concat_chunks_of)
  have "[] \<notin> set ?cs" by (rule chunks_nonempty)
  then have "removeAll [] ?cs = ?cs" by simp
  with d have dc: "distinct ?cs" by (metis distinct_concat_iff)
  from assms have "?cs ! i \<noteq> ?cs ! j"
    using dc by (simp add: nth_eq_iff_index_eq)
  moreover have "?cs ! i \<in> set ?cs" "?cs ! j \<in> set ?cs" using assms by simp_all
  ultimately show ?thesis using d by (metis distinct_concat_iff)
qed

lemma iadd_append:
  "iadd out v = (case iadd [] v of Inl e \<Rightarrow> Inl e | Inr rows \<Rightarrow> Inr (out @ rows))"
  by (cases v) simp_all

lemma fst_collect: "fst (collect (out, printed) results) = out @ concat (map rows_of results)"
proof (induction results arbitrary: out printed)
  case Nil
  show ?case by simp
next
  case (Cons f fs)
  show ?case
  proof (cases f)
    case (Inl e)
    with Cons show ?thesis by (simp add: rows_of_def)
  next
    case (Inr v)
    show ?thesis
    proof (cases "iadd [] v")
      case (Inl e)
      with Inr Cons show ?thesis by (simp add: rows_of_def iadd_append [of out])
    next
      case r: (Inr rows)
      with Inr Cons show ?thesis by (simp add: rows_of_def iadd_append [of out])
    qed
  qed
qed

lemma submit_all_total:
  "[] \<notin> set chunks \<Longrightarrow>
   submit_all run chunks q t = Inr (map (\<lambda>c. run (projr (chunk_cmd c q t))) chunks)"
proof (induction chunks)
  case Nil
  show ?case by simp
next
  case (Cons c cs)
  then obtain x xs where "c = x # xs" by (cases c) auto
  with Cons show ?case by simp
qed

lemma analyticsQuery_eq:
  "analyticsQuery run ws q t =
     Inr (collect ([], []) (map (\<lambda>c. run (projr (chunk_cmd c q t))) (chunks_of ws)))"
  by (simp add: analyticsQuery_def submit_all_total [OF chunks_nonempty])

lemma rows_of_failed: "isl f \<Longrightarrow> rows_of f = []"
  by (cases f) (simp_all add: rows_of_def)

lemma concat_rows_failed: "\<forall>f\<in>set fs. isl f \<Longrightarrow> concat (map rows_of fs) = []"
  by (induction fs) (simp_all add: rows_of_failed)

lemma rows_of_list: "rows_of (Inr (JArr rows)) = rows"
  by (simp add: rows_of_def)

text \<open>
  C4, as the code has it. The chunks are the sorted list cut at every 30th position:
  put end to end they give the sorted ids, there are \<open>(N + 29) div 30\<close> of them (the
  ceiling of \<open>N / 30\<close>), each holds between 1 and 30 ids, and together they hold the ids
  of the input. The command of a chunk names its first id after \<^verbatim>\<open>--workspace\<close> and
  the others, when there are any, after \<^verbatim>\<open>--workspaces\<close>. No id is in two chunks when
  the ids of the input are pairwise different; the code removes no duplicates.
\<close>

theorem chunking:
  "concat (chunks_of ws) = sort ws
   \<and> length (chunks_of ws) = (length ws + 29) div 30
   \<and> (\<forall>c\<in>set (chunks_of ws). c \<noteq> [] \<and> length c \<le> 30
        \<and> chunk_cmd c q t =
            Inr ([''monitor'', ''log-analytics'', ''query'', ''--workspace'', hd c,
                  ''--analytics-query'', q, ''--timespan'', t]
                 @ (if tl c = [] then [] else ''--workspaces'' # tl c)))
   \<and> \<Union> (set ` set (chunks_of ws)) = set ws
   \<and> (distinct ws \<longrightarrow>
        (\<forall>i j. i < j \<and> j < length (chunks_of ws)
           \<longrightarrow> set (chunks_of ws ! i) \<inter> set (chunks_of ws ! j) = {}))"
proof (intro conjI)
  show "concat (chunks_of ws) = sort ws" by (rule concat_chunks_of)
  show "length (chunks_of ws) = (length ws + 29) div 30" by (rule length_chunks_of)
  show "\<forall>c\<in>set (chunks_of ws). c \<noteq> [] \<and> length c \<le> 30
        \<and> chunk_cmd c q t =
            Inr ([''monitor'', ''log-analytics'', ''query'', ''--workspace'', hd c,
                  ''--analytics-query'', q, ''--timespan'', t]
                 @ (if tl c = [] then [] else ''--workspaces'' # tl c))"
  proof
    fix c assume "c \<in> set (chunks_of ws)"
    then have "length c \<le> 30 \<and> c \<noteq> []" by (rule chunk_bounds)
    then show "c \<noteq> [] \<and> length c \<le> 30
        \<and> chunk_cmd c q t =
            Inr ([''monitor'', ''log-analytics'', ''query'', ''--workspace'', hd c,
                  ''--analytics-query'', q, ''--timespan'', t]
                 @ (if tl c = [] then [] else ''--workspaces'' # tl c))"
      using chunk_cmd_nonempty [of c q t] by blast
  qed
  have "\<Union> (set ` set (chunks_of ws)) = set (concat (chunks_of ws))" by simp
  also have "\<dots> = set ws" by (simp add: concat_chunks_of)
  finally show "\<Union> (set ` set (chunks_of ws)) = set ws" .
  show "distinct ws \<longrightarrow>
        (\<forall>i j. i < j \<and> j < length (chunks_of ws)
           \<longrightarrow> set (chunks_of ws ! i) \<inter> set (chunks_of ws ! j) = {})"
    using chunks_disjoint [of ws] by blast
qed

theorem chunking_witness:
  "distinct (map (\<lambda>n. [char_of n]) [65..<96 :: nat])
   \<and> (0 :: nat) < 1 \<and> 1 < length (chunks_of (map (\<lambda>n. [char_of n]) [65..<96 :: nat]))
   \<and> set (chunks_of (map (\<lambda>n. [char_of n]) [65..<96 :: nat]) ! 0)
       \<inter> set (chunks_of (map (\<lambda>n. [char_of n]) [65..<96 :: nat]) ! 1) = {}"
proof -
  let ?ids = "map (\<lambda>n. [char_of n]) [65..<96 :: nat]"
  have d: "distinct ?ids" by code_simp
  have l: "1 < length (chunks_of ?ids)"
    by (simp add: length_chunks_of)
  have "distinct ?ids \<longrightarrow>
        (\<forall>i j. i < j \<and> j < length (chunks_of ?ids)
           \<longrightarrow> set (chunks_of ?ids ! i) \<inter> set (chunks_of ?ids ! j) = {})"
    using chunking [of ?ids "''q''" "''P7D''"] by (elim conjE)
  from this d have "\<forall>i j. i < j \<and> j < length (chunks_of ?ids)
           \<longrightarrow> set (chunks_of ?ids ! i) \<inter> set (chunks_of ?ids ! j) = {}" by (rule mp)
  then have "0 < (1::nat) \<and> 1 < length (chunks_of ?ids)
           \<longrightarrow> set (chunks_of ?ids ! 0) \<inter> set (chunks_of ?ids ! 1) = {}" by blast
  with l have "set (chunks_of ?ids ! 0) \<inter> set (chunks_of ?ids ! 1) = {}" by simp
  with d l show ?thesis by simp
qed

text \<open>
  The claim as written fails on a list that repeats an id: of 31 copies of one id, 30
  go to the first chunk and one to the second.
\<close>

theorem chunking_counterexample:
  "''w'' \<in> set (chunks_of (replicate 31 ''w'') ! 0) \<and> ''w'' \<in> set (chunks_of (replicate 31 ''w'') ! 1)"
  by code_simp

lemma collect_explicit:
  "collect (out, pr) fs =
     (out @ concat (map (\<lambda>f. case f of
            Inr (JArr rows) \<Rightarrow> rows
          | Inr (JObj items) \<Rightarrow> map (\<lambda>kv. JStr (fst kv)) items
          | Inr (JStr s) \<Rightarrow> map (\<lambda>ch. JStr [ch]) s
          | _ \<Rightarrow> []) fs),
      pr @ concat (map (\<lambda>f. case f of
            Inl e \<Rightarrow> [e]
          | Inr JNull \<Rightarrow> [TypeError]
          | Inr (JBool b) \<Rightarrow> [TypeError]
          | Inr (JNum n) \<Rightarrow> [TypeError]
          | _ \<Rightarrow> []) fs))"
proof (induction fs arbitrary: out pr)
  case Nil
  show ?case by simp
next
  case (Cons f fs)
  show ?case
  proof (cases f)
    case (Inl e)
    with Cons show ?thesis by simp
  next
    case (Inr v)
    with Cons show ?thesis by (cases v) simp_all
  qed
qed

lemma futures_explicit:
  "map (\<lambda>c. run (projr (chunk_cmd c q t))) (chunks_of ws) =
   map (\<lambda>k. run ([''monitor'', ''log-analytics'', ''query'', ''--workspace'',
                    hd (take 30 (drop (30 * k) (sort ws))),
                    ''--analytics-query'', q, ''--timespan'', t]
                   @ (if tl (take 30 (drop (30 * k) (sort ws))) = [] then []
                      else ''--workspaces'' # tl (take 30 (drop (30 * k) (sort ws))))))
     [0..<(length ws + 29) div 30]"
proof -
  have "run (projr (chunk_cmd (take 30 (drop (k * 30) (sort ws))) q t)) =
        run ([''monitor'', ''log-analytics'', ''query'', ''--workspace'',
                    hd (take 30 (drop (30 * k) (sort ws))),
                    ''--analytics-query'', q, ''--timespan'', t]
                   @ (if tl (take 30 (drop (30 * k) (sort ws))) = [] then []
                      else ''--workspaces'' # tl (take 30 (drop (30 * k) (sort ws)))))"
    if "k < (length ws + 29) div 30" for k
  proof -
    from that have "k * 30 < length ws" by arith
    then have "take 30 (drop (k * 30) (sort ws)) \<noteq> []" by simp
    then show ?thesis by (simp add: chunk_cmd_nonempty mult.commute)
  qed
  then show ?thesis
    by (simp add: chunks_of_alt chunkSize_def comp_def)
qed

text \<open>
  C5. The call always returns. With the sorted ids cut at every 30th position, chunk
  \<open>k\<close> gives the command \<open>cmd k\<close>, and the futures are read in the order of \<open>k\<close>. The
  output is, chunk after chunk in that order, the rows of a future that returned a
  list (the keys of a dict, the characters of a string); a future that raised gives
  nothing to the output and its exception to the log, and so does a value that
  \<^verbatim>\<open>+=\<close> rejects, with TypeError. When every future raised, the output is empty.
\<close>

theorem partial_failure_tolerance:
  "(let C = (\<lambda>k. take 30 (drop (30 * k) (sort ws)));
        cmd = (\<lambda>k. [''monitor'', ''log-analytics'', ''query'', ''--workspace'', hd (C k),
                      ''--analytics-query'', q, ''--timespan'', t]
                     @ (if tl (C k) = [] then [] else ''--workspaces'' # tl (C k)));
        n = (length ws + 29) div 30
    in analyticsQuery run ws q t =
         Inr (concat (map (\<lambda>k. case run (cmd k) of
                  Inr (JArr rows) \<Rightarrow> rows
                | Inr (JObj items) \<Rightarrow> map (\<lambda>kv. JStr (fst kv)) items
                | Inr (JStr s) \<Rightarrow> map (\<lambda>ch. JStr [ch]) s
                | _ \<Rightarrow> []) [0..<n]),
              concat (map (\<lambda>k. case run (cmd k) of
                  Inl e \<Rightarrow> [e]
                | Inr JNull \<Rightarrow> [TypeError]
                | Inr (JBool b) \<Rightarrow> [TypeError]
                | Inr (JNum i) \<Rightarrow> [TypeError]
                | _ \<Rightarrow> []) [0..<n]))
       \<and> ((\<forall>k<n. isl (run (cmd k))) \<longrightarrow> (\<exists>printed. analyticsQuery run ws q t = Inr ([], printed))))"
proof -
  let ?C = "\<lambda>k. take 30 (drop (30 * k) (sort ws))"
  let ?cmd = "\<lambda>k. [''monitor'', ''log-analytics'', ''query'', ''--workspace'', hd (?C k),
                      ''--analytics-query'', q, ''--timespan'', t]
                     @ (if tl (?C k) = [] then [] else ''--workspaces'' # tl (?C k))"
  let ?n = "(length ws + 29) div 30"
  let ?rows = "\<lambda>f. case f of
                  Inr (JArr rows) \<Rightarrow> rows
                | Inr (JObj items) \<Rightarrow> map (\<lambda>kv. JStr (fst kv)) items
                | Inr (JStr s) \<Rightarrow> map (\<lambda>ch. JStr [ch]) s
                | _ \<Rightarrow> []"
  let ?errs = "\<lambda>f. case f of
                  Inl e \<Rightarrow> [e]
                | Inr JNull \<Rightarrow> [TypeError]
                | Inr (JBool b) \<Rightarrow> [TypeError]
                | Inr (JNum i) \<Rightarrow> [TypeError]
                | _ \<Rightarrow> []"
  have e: "analyticsQuery run ws q t =
      Inr (concat (map (\<lambda>k. ?rows (run (?cmd k))) [0..<?n]),
           concat (map (\<lambda>k. ?errs (run (?cmd k))) [0..<?n]))"
    by (simp add: analyticsQuery_eq futures_explicit collect_explicit comp_def)
  have "concat (map (\<lambda>k. ?rows (run (?cmd k))) [0..<?n]) = []" if "\<forall>k<?n. isl (run (?cmd k))"
  proof -
    have "?rows (run (?cmd k)) = []" if "k < ?n" for k
    proof -
      from \<open>\<forall>k<?n. isl (run (?cmd k))\<close> that have "isl (run (?cmd k))" by blast
      then obtain x where "run (?cmd k) = Inl x" by (cases "run (?cmd k)") auto
      then show ?thesis by simp
    qed
    then show ?thesis by simp
  qed
  with e have "(\<forall>k<?n. isl (run (?cmd k))) \<longrightarrow> (\<exists>printed. analyticsQuery run ws q t = Inr ([], printed))"
    by simp
  with e show ?thesis by (simp only: Let_def)
qed


theorem partial_failure_tolerance_witness:
  "analyticsQuery
      (\<lambda>cmd. if cmd ! 4 = ''U'' then Inl (Failure ''az failed'') else Inr (JArr [JStr (cmd ! 4)]))
      [''0'', ''1'', ''2'', ''3'', ''4'', ''5'', ''6'', ''7'', ''8'', ''9'', ''A'', ''B'',
       ''C'', ''D'', ''E'', ''F'', ''G'', ''H'', ''I'', ''J'', ''K'', ''L'', ''M'',
       ''N'', ''O'', ''P'', ''Q'', ''R'', ''S'', ''T'', ''U'', ''V'', ''W'', ''X'',
       ''Y'', ''Z'', ''a'', ''b'', ''c'', ''d'', ''e'', ''f'', ''g'', ''h'', ''i'',
       ''j'', ''k'', ''l'', ''m'', ''n'', ''o'', ''p'', ''q'', ''r'', ''s'', ''t'',
       ''u'', ''v'', ''w'', ''x'', ''y''] ''q'' ''P7D''
     = Inr ([JStr ''0'', JStr ''y''], [Failure ''az failed''])
   \<and> (\<exists>printed. analyticsQuery (\<lambda>cmd. Inl (Failure ''az failed''))
      [''0'', ''1'', ''2'', ''3'', ''4'', ''5'', ''6'', ''7'', ''8'', ''9'', ''A'', ''B'',
       ''C'', ''D'', ''E'', ''F'', ''G'', ''H'', ''I'', ''J'', ''K'', ''L'', ''M'',
       ''N'', ''O'', ''P'', ''Q'', ''R'', ''S'', ''T'', ''U'', ''V'', ''W'', ''X'',
       ''Y'', ''Z'', ''a'', ''b'', ''c'', ''d'', ''e'', ''f'', ''g'', ''h'', ''i'',
       ''j'', ''k'', ''l'', ''m'', ''n'', ''o'', ''p'', ''q'', ''r'', ''s'', ''t'',
       ''u'', ''v'', ''w'', ''x'', ''y''] ''q'' ''P7D'' = Inr ([], printed))"
proof -
  let ?ids = "[''0'', ''1'', ''2'', ''3'', ''4'', ''5'', ''6'', ''7'', ''8'', ''9'', ''A'', ''B'',
       ''C'', ''D'', ''E'', ''F'', ''G'', ''H'', ''I'', ''J'', ''K'', ''L'', ''M'',
       ''N'', ''O'', ''P'', ''Q'', ''R'', ''S'', ''T'', ''U'', ''V'', ''W'', ''X'',
       ''Y'', ''Z'', ''a'', ''b'', ''c'', ''d'', ''e'', ''f'', ''g'', ''h'', ''i'',
       ''j'', ''k'', ''l'', ''m'', ''n'', ''o'', ''p'', ''q'', ''r'', ''s'', ''t'',
       ''u'', ''v'', ''w'', ''x'', ''y'']"
  let ?run = "\<lambda>cmd :: string list.
      if cmd ! 4 = ''U'' then (Inl (Failure ''az failed'') :: error + json)
      else Inr (JArr [JStr (cmd ! 4)])"
  let ?fail = "\<lambda>cmd :: string list. (Inl (Failure ''az failed'') :: error + json)"
  let ?C = "\<lambda>k. take 30 (drop (30 * k) (sort ?ids))"
  let ?cmd = "\<lambda>k. [''monitor'', ''log-analytics'', ''query'', ''--workspace'', hd (?C k),
                      ''--analytics-query'', ''q'', ''--timespan'', ''P7D'']
                     @ (if tl (?C k) = [] then [] else ''--workspaces'' # tl (?C k))"
  let ?n = "(length ?ids + 29) div 30"
  have a: "analyticsQuery ?run ?ids ''q'' ''P7D'' =
         Inr (concat (map (\<lambda>k. case ?run (?cmd k) of
                  Inr (JArr rows) \<Rightarrow> rows
                | Inr (JObj items) \<Rightarrow> map (\<lambda>kv. JStr (fst kv)) items
                | Inr (JStr s) \<Rightarrow> map (\<lambda>ch. JStr [ch]) s
                | _ \<Rightarrow> []) [0..<?n]),
              concat (map (\<lambda>k. case ?run (?cmd k) of
                  Inl e \<Rightarrow> [e]
                | Inr JNull \<Rightarrow> [TypeError]
                | Inr (JBool b) \<Rightarrow> [TypeError]
                | Inr (JNum i) \<Rightarrow> [TypeError]
                | _ \<Rightarrow> []) [0..<?n]))"
    using partial_failure_tolerance [of ?ids "''q''" "''P7D''" ?run]
    unfolding Let_def by (rule conjunct1)
  have b: "Inr (concat (map (\<lambda>k. case ?run (?cmd k) of
                  Inr (JArr rows) \<Rightarrow> rows
                | Inr (JObj items) \<Rightarrow> map (\<lambda>kv. JStr (fst kv)) items
                | Inr (JStr s) \<Rightarrow> map (\<lambda>ch. JStr [ch]) s
                | _ \<Rightarrow> []) [0..<?n]),
              concat (map (\<lambda>k. case ?run (?cmd k) of
                  Inl e \<Rightarrow> [e]
                | Inr JNull \<Rightarrow> [TypeError]
                | Inr (JBool b) \<Rightarrow> [TypeError]
                | Inr (JNum i) \<Rightarrow> [TypeError]
                | _ \<Rightarrow> []) [0..<?n]))
      = (Inr ([JStr ''0'', JStr ''y''], [Failure ''az failed'']) :: error + json list \<times> error list)"
    by code_simp
  have r1: "analyticsQuery ?run ?ids ''q'' ''P7D'' = Inr ([JStr ''0'', JStr ''y''], [Failure ''az failed''])"
    using a b by (rule trans)
  have h: "\<forall>k<?n. isl (?fail (?cmd k))" by simp
  have "(\<forall>k<?n. isl (?fail (?cmd k))) \<longrightarrow>
      (\<exists>printed. analyticsQuery ?fail ?ids ''q'' ''P7D'' = Inr ([], printed))"
    using partial_failure_tolerance [of ?ids "''q''" "''P7D''" ?fail]
    unfolding Let_def by (rule conjunct2)
  from this h have r2: "\<exists>printed. analyticsQuery ?fail ?ids ''q'' ''P7D'' = Inr ([], printed)"
    by (rule mp)
  from r1 r2 show ?thesis by (rule conjI)
qed

lemma rows_of_None: "rows_of (Inr JNull) = []"
  by (simp add: rows_of_def)

text \<open>
  C9. Empty output makes \<^verbatim>\<open>azcli\<close> return \<^verbatim>\<open>None\<close>; in the second loop \<^verbatim>\<open>output += None\<close>
  raises TypeError, which is caught and printed like the exception of a failed chunk,
  and the output stays as it was. So putting a failure in place of every empty-output
  chunk leaves the returned rows the same.
\<close>

theorem empty_output_excluded:
  "(check_output ([''az''] @ cmd @ [''--only-show-errors'', ''-o'', ''json'']) = Inr []
      \<longrightarrow> azcli check_output json_loads cmd = Inr JNull)
   \<and> collect (out, printed) (Inr JNull # results) = collect (out, printed @ [TypeError]) results
   \<and> collect (out, printed) (Inl e # results) = collect (out, printed @ [e]) results
   \<and> ((\<forall>c. run' c = (if run c = Inr JNull then Inl e else run c))
        \<longrightarrow> map_sum id fst (analyticsQuery run' ws q t) = map_sum id fst (analyticsQuery run ws q t))"
proof (intro conjI impI)
  assume "check_output ([''az''] @ cmd @ [''--only-show-errors'', ''-o'', ''json'']) = Inr []"
  then show "azcli check_output json_loads cmd = Inr JNull" by (simp add: azcli_def)
next
  show "collect (out, printed) (Inr JNull # results) = collect (out, printed @ [TypeError]) results"
    by simp
next
  show "collect (out, printed) (Inl e # results) = collect (out, printed @ [e]) results"
    by simp
next
  assume a: "\<forall>c. run' c = (if run c = Inr JNull then Inl e else run c)"
  have "rows_of (run' c) = rows_of (run c)" for c
    using a by (simp add: rows_of_def)
  then show "map_sum id fst (analyticsQuery run' ws q t) = map_sum id fst (analyticsQuery run ws q t)"
    by (simp add: analyticsQuery_eq fst_collect comp_def)
qed

theorem empty_output_excluded_witness:
  "azcli (\<lambda>c. Inr []) (\<lambda>s. Inr (JStr s)) [''account'', ''show''] = Inr JNull
   \<and> map_sum id fst (analyticsQuery (\<lambda>c. Inl (Failure ''az failed'')) [''w1''] ''q'' ''P7D'')
     = map_sum id fst (analyticsQuery (azcli (\<lambda>c. Inr []) (\<lambda>s. Inr (JStr s))) [''w1''] ''q'' ''P7D'')"
proof -
  let ?co = "\<lambda>c :: string list. (Inr [] :: error + string)"
  let ?jl = "\<lambda>s. (Inr (JStr s) :: error + json)"
  let ?run' = "\<lambda>c :: string list. (Inl (Failure ''az failed'') :: error + json)"
  have h1: "?co ([''az''] @ [''account'', ''show''] @ [''--only-show-errors'', ''-o'', ''json'']) = Inr []"
    by simp
  have h2: "\<forall>c. ?run' c = (if azcli ?co ?jl c = Inr JNull then Inl (Failure ''az failed'') else azcli ?co ?jl c)"
    by (simp add: azcli_def)
  from empty_output_excluded [of ?co "[''account'', ''show'']" ?jl "[]" "[]" "[]" "Failure ''az failed''"
      ?run' "azcli ?co ?jl" "[''w1'']" "''q''" "''P7D''"] h1 h2
  show ?thesis by blast
qed

section \<open>Properties of simpleQuery\<close>

lemma str_find_ge: "- 1 \<le> str_find s sub"
  by (induction s) (auto simp: Let_def)

lemma str_find_zero: "str_find s sub = 0 \<longleftrightarrow> startswith s sub"
proof (cases s)
  case Nil
  then show ?thesis by (simp add: startswith_def)
next
  case (Cons c cs)
  have "- 1 \<le> str_find cs sub" by (rule str_find_ge)
  then show ?thesis using Cons by (auto simp: Let_def)
qed

lemma str_find_absent: "str_find s sub = - 1 \<longleftrightarrow> \<not> sublist sub s"
proof (induction s)
  case Nil
  show ?case by simp
next
  case (Cons c cs)
  have ge: "- 1 \<le> str_find cs sub" by (rule str_find_ge)
  show ?case
  proof (cases "prefix sub (c # cs)")
    case True
    then show ?thesis by (simp add: startswith_def sublist_Cons_right)
  next
    case False
    then show ?thesis using Cons ge by (auto simp: startswith_def Let_def sublist_Cons_right)
  qed
qed

lemma simpleQuery_loop_find:
  "simpleQuery_loop repr run ws query nm =
     (case List.find (\<lambda>w. \<not> startswith (workspace_str repr w) nm) ws of
        None \<Rightarrow> Inr None
      | Some w \<Rightarrow>
          (case analyticsQuery run [customerId w] query ''P7D'' of
             Inl e \<Rightarrow> Inl e
           | Inr r \<Rightarrow> Inr (Some r)))"
  by (induction ws) (simp_all add: str_find_zero)

text \<open>
  C10. \<^verbatim>\<open>simpleQuery\<close> runs the query on the first workspace of the listing for which
  \<^verbatim>\<open>str(workspace).find(name)\<close> is not zero, that is, whose text does not start with
  \<open>name\<close>: the name may be absent (\<open>-1\<close>) or stand further right. When there is no such
  workspace it returns \<^verbatim>\<open>None\<close>. The query on the chosen workspace always returns.
\<close>

theorem simpleQuery_selection:
  "simpleQuery repr run (Inr ws) query nm =
     (case List.find (\<lambda>w. str_find (workspace_str repr w) nm \<noteq> 0) ws of
        None \<Rightarrow> Inr None
      | Some w \<Rightarrow> map_sum id Some (analyticsQuery run [customerId w] query ''P7D''))
   \<and> (\<exists>r. analyticsQuery run [cid] query ''P7D'' = Inr r)
   \<and> (str_find s nm \<noteq> 0 \<longleftrightarrow> \<not> startswith s nm)
   \<and> (str_find s nm = - 1 \<longleftrightarrow> \<not> sublist nm s)
   \<and> simpleQuery repr run (Inr []) query nm = Inr None"
proof (intro conjI)
  have "(\<lambda>w. str_find (workspace_str repr w) nm \<noteq> 0) = (\<lambda>w. \<not> startswith (workspace_str repr w) nm)"
    by (simp add: str_find_zero)
  then show "simpleQuery repr run (Inr ws) query nm =
     (case List.find (\<lambda>w. str_find (workspace_str repr w) nm \<noteq> 0) ws of
        None \<Rightarrow> Inr None
      | Some w \<Rightarrow> map_sum id Some (analyticsQuery run [customerId w] query ''P7D''))"
    by (simp add: simpleQuery_def simpleQuery_loop_find analyticsQuery_eq split: option.splits)
  show "\<exists>r. analyticsQuery run [cid] query ''P7D'' = Inr r"
    by (simp add: analyticsQuery_eq)
  show "str_find s nm \<noteq> 0 \<longleftrightarrow> \<not> startswith s nm" by (simp add: str_find_zero)
  show "str_find s nm = - 1 \<longleftrightarrow> \<not> sublist nm s" by (rule str_find_absent)
  show "simpleQuery repr run (Inr []) query nm = Inr None" by (simp add: simpleQuery_def)
qed

theorem simpleQuery_selection_witness:
  "simpleQuery (\<lambda>s. [CHR 0x27] @ s @ [CHR 0x27]) (\<lambda>cmd. Inr (JArr [JStr (cmd ! 4)]))
     (Inr [\<lparr>subscription = ''s1'', customerId = ''id-alpha'', resourceGroup = ''rg'', name = ''alpha''\<rparr>,
           \<lparr>subscription = ''s1'', customerId = ''id-beta'', resourceGroup = ''rg'', name = ''beta''\<rparr>])
     ''q'' ''beta''
   = Inr (Some ([JStr ''id-alpha''], []))"
proof -
  let ?repr = "\<lambda>s. [CHR 0x27] @ s @ [CHR 0x27]"
  let ?run = "\<lambda>cmd :: string list. (Inr (JArr [JStr (cmd ! 4)]) :: error + json)"
  let ?ws = "[\<lparr>subscription = ''s1'', customerId = ''id-alpha'', resourceGroup = ''rg'', name = ''alpha''\<rparr>,
           \<lparr>subscription = ''s1'', customerId = ''id-beta'', resourceGroup = ''rg'', name = ''beta''\<rparr>]"
  have f: "List.find (\<lambda>w. str_find (workspace_str ?repr w) ''beta'' \<noteq> 0) ?ws
      = Some \<lparr>subscription = ''s1'', customerId = ''id-alpha'', resourceGroup = ''rg'', name = ''alpha''\<rparr>"
    by (simp add: str_find_zero startswith_def workspace_str_def del: str_find.simps)
  have a: "analyticsQuery ?run [''id-alpha''] ''q'' ''P7D'' = Inr ([JStr ''id-alpha''], [])"
    by (simp add: analyticsQuery_eq chunks_of_alt chunkSize_def)
  have s1: "simpleQuery ?repr ?run (Inr ?ws) ''q'' ''beta'' =
     (case List.find (\<lambda>w. str_find (workspace_str ?repr w) ''beta'' \<noteq> 0) ?ws of
        None \<Rightarrow> Inr None
      | Some w \<Rightarrow> map_sum id Some (analyticsQuery ?run [customerId w] ''q'' ''P7D''))"
    using simpleQuery_selection [of ?repr ?run ?ws "''q''" "''beta''" "''id''" "''s''"]
    by (rule conjunct1)
  show ?thesis unfolding s1 f by (simp add: a)
qed

section \<open>Properties of the reverse proxy dispatcher\<close>

lemma matches_prefix_iff:
  "matches_prefix key ps \<longleftrightarrow> (\<exists>p\<in>set ps. startswith (lower key) p)"
  by (induction ps) auto

lemma keys_setitem: "fst ` set (setitem d k v) = insert k (fst ` set d)"
  by (induction d) auto

lemma map_of_setitem: "map_of (setitem d k v) = (map_of d)(k \<mapsto> v)"
  by (induction d) (auto simp: fun_eq_iff)

lemma distinct_setitem: "distinct (map fst d) \<Longrightarrow> distinct (map fst (setitem d k v))"
  by (induction d) (auto simp: keys_setitem image_iff)

lemma keys_filter_loop:
  "fst ` set (filter_loop hs ps clean) =
     fst ` set clean \<union> {k \<in> fst ` set hs. \<not> matches_prefix k ps}"
  by (induction hs arbitrary: clean) (auto simp: keys_setitem)

lemma keys_filter_headers:
  "fst ` set (filter_headers hs ps) = {k \<in> fst ` set hs. \<not> matches_prefix k ps}"
  by (simp add: filter_headers_def keys_filter_loop)

lemma map_of_filter_loop:
  "distinct (map fst hs) \<Longrightarrow>
   map_of (filter_loop hs ps clean) k =
     (if k \<in> fst ` set hs \<and> \<not> matches_prefix k ps then map_of hs k else map_of clean k)"
proof (induction hs arbitrary: clean)
  case Nil
  show ?case by simp
next
  case (Cons h hs)
  then show ?case
    by (cases h) (auto simp: map_of_setitem image_iff)
qed

lemma map_of_filter_headers:
  assumes "distinct (map fst hs)"
  shows "map_of (filter_headers hs ps) k = (if matches_prefix k ps then None else map_of hs k)"
proof (cases "k \<in> fst ` set hs")
  case True
  with assms show ?thesis by (simp add: filter_headers_def map_of_filter_loop)
next
  case False
  then have "map_of hs k = None" by (simp add: map_of_eq_None_iff)
  with False assms show ?thesis by (simp add: filter_headers_def map_of_filter_loop)
qed

lemma replace1_prefix:
  "old \<noteq> [] \<Longrightarrow> startswith s old \<Longrightarrow> replace1 old [] s = drop (length old) s"
  by (cases s) (auto simp: startswith_def)

lemma location_kept: "\<not> matches_prefix ''location'' strip_output_headers"
  by code_simp

lemma rewrite_location_contained:
  assumes "map_of hs ''location'' = Some loc" "startswith loc (cb @ ''/'')"
  shows "rewrite_location cb root pfx hs =
           Inr (setitem hs ''location'' (root @ ''/'' @ pfx @ ''/'' @ drop (length cb + 1) loc))"
proof -
  have "replace1 (cb @ ''/'') [] loc = drop (length (cb @ ''/'')) loc"
    using assms(2) by (intro replace1_prefix) simp_all
  with assms show ?thesis by (simp add: rewrite_location_def)
qed

lemma rewrite_location_forbidden:
  assumes "map_of hs ''location'' = Some loc" "\<not> startswith loc (cb @ ''/'')" "startswith loc ''http''"
  shows "rewrite_location cb root pfx hs =
           Inl (HTTPException 403 (''Redirect to '' @ loc @ '' not allowed.''))"
  using assms by (simp add: rewrite_location_def)

lemma content_length_stripped: "matches_prefix ''content-length'' strip_output_headers"
  by code_simp

lemma content_length_own:
  "startswith (lower ''content-length'') ''content-length''
   \<and> \<not> startswith (lower ''content-length'') ''set-cookie''
   \<and> \<not> startswith (lower ''content-length'') ''transfer-encoding''
   \<and> \<not> startswith (lower ''content-length'') ''server''
   \<and> \<not> startswith (lower ''content-length'') ''date''
   \<and> \<not> startswith (lower ''content-length'') ''connection''"
  by code_simp

lemma filtered_no_content_length:
  "''content-length'' \<notin> set (map fst (filter_headers hs strip_output_headers))"
proof
  assume "''content-length'' \<in> set (map fst (filter_headers hs strip_output_headers))"
  then have "''content-length'' \<in> fst ` set (filter_headers hs strip_output_headers)" by simp
  then have "\<not> matches_prefix ''content-length'' strip_output_headers"
    by (simp add: keys_filter_headers)
  with content_length_stripped show False by simp
qed

lemma filtered_names:
  assumes "h \<in> set (filter_headers hs ps)" "p \<in> set ps"
  shows "\<not> startswith (lower (fst h)) p"
proof -
  from assms(1) have "fst h \<in> fst ` set (filter_headers hs ps)" by simp
  then have "\<not> matches_prefix (fst h) ps" by (simp add: keys_filter_headers)
  with assms(2) show ?thesis by (auto simp: matches_prefix_iff)
qed

lemma init_headers_filtered:
  "init_headers status body (filter_headers hs strip_output_headers) =
     (if status < 200 \<or> status \<in> {204, 304} then filter_headers hs strip_output_headers
      else filter_headers hs strip_output_headers @ [(''content-length'', str_nat (length body))])"
  using filtered_no_content_length [of hs] by (simp add: init_headers_def)

lemma relay_headers:
  assumes "relay c request pfx org = Inr resp"
  shows "\<exists>hs'. resp_headers resp =
            (if resp_status_code resp < 200 \<or> resp_status_code resp \<in> {204, 304}
             then filter_headers hs' strip_output_headers
             else filter_headers hs' strip_output_headers
                    @ [(''content-length'', str_nat (length (resp_body resp)))])"
proof -
  from assms obtain hs' where
    "resp = \<lparr>resp_status_code = status_code org, resp_body = concat (iter_raw org),
             resp_headers = init_headers (status_code org) (concat (iter_raw org))
                              (filter_headers hs' strip_output_headers)\<rparr>"
    by (auto simp: relay_def split: sum.splits)
  then have "resp_headers resp =
      init_headers (resp_status_code resp) (resp_body resp) (filter_headers hs' strip_output_headers)"
    by simp
  then show ?thesis by (simp only: init_headers_filtered) blast
qed

text \<open>
  C3, as the code has it. No header that \<^verbatim>\<open>upstream\<close> passes to the upstream client has
  a name that, in lower case, starts with one of \<^verbatim>\<open>host\<close>, \<^verbatim>\<open>cookie\<close>, \<^verbatim>\<open>x-ms-\<close>,
  \<^verbatim>\<open>x-arr-\<close>, \<^verbatim>\<open>disguised-host\<close>, \<^verbatim>\<open>referer\<close>: a Cookie header and the headers
  the platform adds under \<^verbatim>\<open>x-ms-\<close> and \<^verbatim>\<open>x-arr-\<close> are dropped. No header of the
  response that \<^verbatim>\<open>upstream\<close> returns has a name that starts with \<^verbatim>\<open>set-cookie\<close>,
  \<^verbatim>\<open>transfer-encoding\<close>, \<^verbatim>\<open>server\<close>, \<^verbatim>\<open>date\<close> or \<^verbatim>\<open>connection\<close>. The
  \<^verbatim>\<open>content-length\<close> of the upstream is dropped too, but the response carries one of
  its own: the length of the relayed body, unless the status code is below 200, 204
  or 304.
\<close>

theorem header_scrubbing:
  "(\<forall>h\<in>set (forwarded_headers request).
      \<forall>p\<in>set default_filtered_prefixes. \<not> startswith (lower (fst h)) p)
   \<and> (\<forall>h\<in>set (forwarded_headers request).
        \<not> startswith (lower (fst h)) ''cookie'' \<and> \<not> startswith (lower (fst h)) ''x-ms-''
        \<and> \<not> startswith (lower (fst h)) ''x-arr-'')
   \<and> upstream request pfx path body (Inr c) =
       (case stream c (req_method request) (path, req_query request) body (forwarded_headers request) of
          Inl e \<Rightarrow> Inl e
        | Inr org \<Rightarrow> relay c request pfx org)
   \<and> (relay c request pfx org = Inr resp \<longrightarrow>
        (\<forall>h\<in>set (resp_headers resp).
           \<forall>p\<in>set [''set-cookie'', ''transfer-encoding'', ''server'', ''date'', ''connection''].
             \<not> startswith (lower (fst h)) p)
        \<and> filter (\<lambda>h. startswith (lower (fst h)) ''content-length'') (resp_headers resp) =
            (if resp_status_code resp < 200 \<or> resp_status_code resp \<in> {204, 304} then []
             else [(''content-length'', str_nat (length (resp_body resp)))]))"
proof (intro conjI)
  have k: "\<forall>k\<in>fst ` set (forwarded_headers request). \<not> matches_prefix k default_filtered_prefixes"
    by (simp add: forwarded_headers_def keys_filter_headers)
  then show a: "\<forall>h\<in>set (forwarded_headers request).
      \<forall>p\<in>set default_filtered_prefixes. \<not> startswith (lower (fst h)) p"
    by (simp add: matches_prefix_iff)
  then show "\<forall>h\<in>set (forwarded_headers request).
        \<not> startswith (lower (fst h)) ''cookie'' \<and> \<not> startswith (lower (fst h)) ''x-ms-''
        \<and> \<not> startswith (lower (fst h)) ''x-arr-''"
    by (simp add: default_filtered_prefixes_def)
  show "upstream request pfx path body (Inr c) =
       (case stream c (req_method request) (path, req_query request) body (forwarded_headers request) of
          Inl e \<Rightarrow> Inl e
        | Inr org \<Rightarrow> relay c request pfx org)"
    by (simp add: upstream_def)
  show "relay c request pfx org = Inr resp \<longrightarrow>
        (\<forall>h\<in>set (resp_headers resp).
           \<forall>p\<in>set [''set-cookie'', ''transfer-encoding'', ''server'', ''date'', ''connection''].
             \<not> startswith (lower (fst h)) p)
        \<and> filter (\<lambda>h. startswith (lower (fst h)) ''content-length'') (resp_headers resp) =
            (if resp_status_code resp < 200 \<or> resp_status_code resp \<in> {204, 304} then []
             else [(''content-length'', str_nat (length (resp_body resp)))])"
  proof
    assume "relay c request pfx org = Inr resp"
    then obtain hs' where r: "resp_headers resp =
            (if resp_status_code resp < 200 \<or> resp_status_code resp \<in> {204, 304}
             then filter_headers hs' strip_output_headers
             else filter_headers hs' strip_output_headers
                    @ [(''content-length'', str_nat (length (resp_body resp)))])"
      using relay_headers by blast
    let ?F = "filter_headers hs' strip_output_headers"
    have f: "\<forall>h\<in>set ?F. \<forall>p\<in>set strip_output_headers. \<not> startswith (lower (fst h)) p"
      using filtered_names by blast
    then have f5: "\<forall>h\<in>set ?F.
        \<forall>p\<in>set [''set-cookie'', ''transfer-encoding'', ''server'', ''date'', ''connection''].
          \<not> startswith (lower (fst h)) p"
      by (simp add: strip_output_headers_def)
    from f have "\<forall>h\<in>set ?F. \<not> startswith (lower (fst h)) ''content-length''"
      by (simp add: strip_output_headers_def)
    then have fcl: "filter (\<lambda>h. startswith (lower (fst h)) ''content-length'') ?F = []"
      by (simp add: filter_empty_conv)
    show "(\<forall>h\<in>set (resp_headers resp).
           \<forall>p\<in>set [''set-cookie'', ''transfer-encoding'', ''server'', ''date'', ''connection''].
             \<not> startswith (lower (fst h)) p)
        \<and> filter (\<lambda>h. startswith (lower (fst h)) ''content-length'') (resp_headers resp) =
            (if resp_status_code resp < 200 \<or> resp_status_code resp \<in> {204, 304} then []
             else [(''content-length'', str_nat (length (resp_body resp)))])"
    proof (cases "resp_status_code resp < 200 \<or> resp_status_code resp \<in> {204, 304}")
      case True
      with r have "resp_headers resp = ?F" by simp
      with True f5 fcl show ?thesis by simp
    next
      case False
      with r have "resp_headers resp = ?F @ [(''content-length'', str_nat (length (resp_body resp)))]"
        by simp
      with False f5 fcl content_length_own show ?thesis by simp
    qed
  qed
qed

theorem header_scrubbing_witness:
  "forwarded_headers
       \<lparr>req_method = ''GET'',
        req_headers = [(''Cookie'', ''sid=1''), (''X-MS-Client-Principal'', ''p''), (''Accept'', ''*/*'')],
        req_query = [], root_path = ''/proxy''\<rparr> = [(''Accept'', ''*/*'')]
   \<and> relay \<lparr>base_url = ''https://httpbin.org'', stream = (\<lambda>m u b hs. Inl (Failure ''unused''))\<rparr>
        \<lparr>req_method = ''GET'',
         req_headers = [(''Cookie'', ''sid=1''), (''X-MS-Client-Principal'', ''p''), (''Accept'', ''*/*'')],
         req_query = [], root_path = ''/proxy''\<rparr>
        ''httpbin''
        \<lparr>status_code = 200,
         origin_headers = [(''set-cookie'', ''a=b''), (''server'', ''gunicorn''),
                           (''content-length'', ''5''), (''content-type'', ''text/html'')],
         iter_raw = [''ok'']\<rparr>
     = Inr \<lparr>resp_status_code = 200, resp_body = ''ok'',
            resp_headers = [(''content-type'', ''text/html''), (''content-length'', ''2'')]\<rparr>
   \<and> \<not> startswith (lower ''content-type'') ''server''
   \<and> filter (\<lambda>h. startswith (lower (fst h)) ''content-length'')
        [(''content-type'', ''text/html''), (''content-length'', ''2'')]
       = [(''content-length'', str_nat (length ''ok''))]
   \<and> \<not> startswith (lower ''Accept'') ''cookie''"
proof -
  let ?req = "\<lparr>req_method = ''GET'',
        req_headers = [(''Cookie'', ''sid=1''), (''X-MS-Client-Principal'', ''p''), (''Accept'', ''*/*'')],
        req_query = [], root_path = ''/proxy''\<rparr>"
  let ?c = "\<lparr>base_url = ''https://httpbin.org'',
        stream = (\<lambda>(m :: string) (u :: string \<times> string) (b :: string) (hs :: headers).
                    (Inl (Failure ''unused'') :: error + origin))\<rparr>"
  let ?org = "\<lparr>status_code = 200,
         origin_headers = [(''set-cookie'', ''a=b''), (''server'', ''gunicorn''),
                           (''content-length'', ''5''), (''content-type'', ''text/html'')],
         iter_raw = [''ok'']\<rparr>"
  let ?resp = "\<lparr>resp_status_code = 200, resp_body = ''ok'',
            resp_headers = [(''content-type'', ''text/html''), (''content-length'', ''2'')]\<rparr>"
  have f: "forwarded_headers ?req = [(''Accept'', ''*/*'')]" by code_simp
  have r: "relay ?c ?req ''httpbin'' ?org = Inr ?resp" by code_simp
  note t = header_scrubbing [where request = ?req and c = ?c and path = "''get''" and body = "[]"
      and pfx = "''httpbin''" and org = ?org and resp = ?resp]
  have a: "\<forall>h\<in>set (forwarded_headers ?req).
      \<forall>p\<in>set default_filtered_prefixes. \<not> startswith (lower (fst h)) p"
    using t by (rule conjunct1)
  have "relay ?c ?req ''httpbin'' ?org = Inr ?resp \<longrightarrow>
        (\<forall>h\<in>set (resp_headers ?resp).
           \<forall>p\<in>set [''set-cookie'', ''transfer-encoding'', ''server'', ''date'', ''connection''].
             \<not> startswith (lower (fst h)) p)
        \<and> filter (\<lambda>h. startswith (lower (fst h)) ''content-length'') (resp_headers ?resp) =
            (if resp_status_code ?resp < 200 \<or> resp_status_code ?resp \<in> {204, 304} then []
             else [(''content-length'', str_nat (length (resp_body ?resp)))])"
    using t by (elim conjE)
  from this r have b: "(\<forall>h\<in>set (resp_headers ?resp).
           \<forall>p\<in>set [''set-cookie'', ''transfer-encoding'', ''server'', ''date'', ''connection''].
             \<not> startswith (lower (fst h)) p)
        \<and> filter (\<lambda>h. startswith (lower (fst h)) ''content-length'') (resp_headers ?resp) =
            (if resp_status_code ?resp < 200 \<or> resp_status_code ?resp \<in> {204, 304} then []
             else [(''content-length'', str_nat (length (resp_body ?resp)))])"
    by (rule mp)
  have m1: "(''content-type'', ''text/html'') \<in> set (resp_headers ?resp)" by simp
  have m2: "''server'' \<in> set [''set-cookie'', ''transfer-encoding'', ''server'', ''date'', ''connection'']"
    by simp
  from b [THEN conjunct1] m1 m2
  have "\<not> startswith (lower (fst (''content-type'', ''text/html''))) ''server''"
    by blast
  then have b': "\<not> startswith (lower ''content-type'') ''server''" by simp
  have b'': "filter (\<lambda>h. startswith (lower (fst h)) ''content-length'')
        [(''content-type'', ''text/html''), (''content-length'', ''2'')]
       = [(''content-length'', str_nat (length ''ok''))]"
    using b [THEN conjunct2] by simp
  have m3: "(''Accept'', ''*/*'') \<in> set (forwarded_headers ?req)" by (simp only: f) simp
  have m4: "''cookie'' \<in> set default_filtered_prefixes"
    by (simp add: default_filtered_prefixes_def)
  from a m3 m4 have "\<not> startswith (lower (fst (''Accept'', ''*/*''))) ''cookie''"
    by blast
  then have a': "\<not> startswith (lower ''Accept'') ''cookie''" by simp
  from f r b' b'' a' show ?thesis by (intro conjI)
qed

text \<open>
  The claim as written fails on both sides. \<^verbatim>\<open>X-Forwarded-Host\<close> starts with none of
  the prefixes of the list and is passed on, beside a Cookie header that is dropped.
  And the response has a \<^verbatim>\<open>content-length\<close> header: not the upstream's, which is
  dropped, but the one \<^verbatim>\<open>init_headers\<close> adds for the body.
\<close>

theorem header_scrubbing_counterexample:
  "forwarded_headers
       \<lparr>req_method = ''GET'',
        req_headers = [(''Cookie'', ''sid=1''), (''X-Forwarded-Host'', ''front.example'')],
        req_query = [], root_path = ''/proxy''\<rparr>
     = [(''X-Forwarded-Host'', ''front.example'')]
   \<and> relay \<lparr>base_url = ''https://httpbin.org'', stream = (\<lambda>m u b hs. Inl (Failure ''unused''))\<rparr>
        \<lparr>req_method = ''GET'', req_headers = [], req_query = [], root_path = ''/proxy''\<rparr>
        ''httpbin''
        \<lparr>status_code = 200,
         origin_headers = [(''content-length'', ''5''), (''content-type'', ''text/html'')],
         iter_raw = [''ok'']\<rparr>
     = Inr \<lparr>resp_status_code = 200, resp_body = ''ok'',
            resp_headers = [(''content-type'', ''text/html''), (''content-length'', ''2'')]\<rparr>"
  by code_simp

text \<open>
  C2, as the code has it. The upstream's answer carries a \<^verbatim>\<open>location\<close> header. When the
  location starts with the client's base URL followed by a slash, the response has it
  rewritten to the mount path, \<^verbatim>\<open>/{prefix}/\<close> and the rest of the location. Any other
  location that starts with \<^verbatim>\<open>http\<close> makes \<^verbatim>\<open>upstream\<close> raise the 403 error.
\<close>

theorem redirect_containment:
  assumes "distinct (map fst (origin_headers org))"
    and "map_of (origin_headers org) ''location'' = Some loc"
    and "stream c (req_method request) (path, req_query request) body (forwarded_headers request) = Inr org"
  shows "(startswith loc (base_url c @ ''/'') \<longrightarrow>
           (\<exists>resp. upstream request pfx path body (Inr c) = Inr resp
              \<and> map_of (resp_headers resp) ''location'' =
                  Some (root_path request @ ''/'' @ pfx @ ''/'' @ drop (length (base_url c) + 1) loc)))
       \<and> (\<not> startswith loc (base_url c @ ''/'') \<and> startswith loc ''http'' \<longrightarrow>
           upstream request pfx path body (Inr c) =
             Inl (HTTPException 403 (''Redirect to '' @ loc @ '' not allowed.'')))"
proof (intro conjI impI)
  assume p: "startswith loc (base_url c @ ''/'')"
  let ?new = "root_path request @ ''/'' @ pfx @ ''/'' @ drop (length (base_url c) + 1) loc"
  let ?hs = "setitem (origin_headers org) ''location'' ?new"
  have r: "rewrite_location (base_url c) (root_path request) pfx (origin_headers org) = Inr ?hs"
    using assms(2) p by (rule rewrite_location_contained)
  have d: "distinct (map fst ?hs)" using assms(1) by (rule distinct_setitem)
  have "map_of (filter_headers ?hs strip_output_headers) ''location'' = map_of ?hs ''location''"
    using d location_kept by (simp add: map_of_filter_headers)
  also have "\<dots> = Some ?new" by (simp add: map_of_setitem)
  finally have l: "map_of (filter_headers ?hs strip_output_headers) ''location'' = Some ?new" .
  have "map_of (init_headers (status_code org) (concat (iter_raw org))
                  (filter_headers ?hs strip_output_headers)) ''location'' = Some ?new"
    using l by (simp add: init_headers_filtered)
  then show "\<exists>resp. upstream request pfx path body (Inr c) = Inr resp
              \<and> map_of (resp_headers resp) ''location'' = Some ?new"
    using assms(3) r by (simp add: upstream_def relay_def)
next
  assume "\<not> startswith loc (base_url c @ ''/'') \<and> startswith loc ''http''"
  then have "rewrite_location (base_url c) (root_path request) pfx (origin_headers org) =
      Inl (HTTPException 403 (''Redirect to '' @ loc @ '' not allowed.''))"
    using assms(2) by (intro rewrite_location_forbidden) simp_all
  then show "upstream request pfx path body (Inr c) =
             Inl (HTTPException 403 (''Redirect to '' @ loc @ '' not allowed.''))"
    using assms(3) by (simp add: upstream_def relay_def)
qed


theorem redirect_containment_witness:
  "(\<exists>resp. upstream \<lparr>req_method = ''GET'', req_headers = [], req_query = [], root_path = ''/proxy''\<rparr>
        ''httpbin'' ''redirect'' []
        (Inr \<lparr>base_url = ''https://httpbin.org'',
              stream = (\<lambda>m u b hs. Inr \<lparr>status_code = 302,
                 origin_headers = [(''location'', ''https://httpbin.org/get'')],
                 iter_raw = []\<rparr>)\<rparr>) = Inr resp
      \<and> map_of (resp_headers resp) ''location'' = Some ''/proxy/httpbin/get'')
   \<and> upstream \<lparr>req_method = ''GET'', req_headers = [], req_query = [], root_path = ''/proxy''\<rparr>
        ''httpbin'' ''redirect'' []
        (Inr \<lparr>base_url = ''https://httpbin.org'',
              stream = (\<lambda>m u b hs. Inr \<lparr>status_code = 302,
                 origin_headers = [(''location'', ''https://other.example/x'')],
                 iter_raw = []\<rparr>)\<rparr>)
      = Inl (HTTPException 403 ''Redirect to https://other.example/x not allowed.'')"
proof -
  let ?req = "\<lparr>req_method = ''GET'', req_headers = [], req_query = [], root_path = ''/proxy''\<rparr>"
  let ?orgA = "\<lparr>status_code = 302,
                 origin_headers = [(''location'', ''https://httpbin.org/get'')], iter_raw = []\<rparr>"
  let ?orgB = "\<lparr>status_code = 302,
                 origin_headers = [(''location'', ''https://other.example/x'')], iter_raw = []\<rparr>"
  let ?cA = "\<lparr>base_url = ''https://httpbin.org'',
        stream = (\<lambda>(m :: string) (u :: string \<times> string) (b :: string) (hs :: headers).
                    (Inr ?orgA :: error + origin))\<rparr>"
  let ?cB = "\<lparr>base_url = ''https://httpbin.org'',
        stream = (\<lambda>(m :: string) (u :: string \<times> string) (b :: string) (hs :: headers).
                    (Inr ?orgB :: error + origin))\<rparr>"
  have a1: "distinct (map fst (origin_headers ?orgA))" by simp
  have a2: "map_of (origin_headers ?orgA) ''location'' = Some ''https://httpbin.org/get''" by simp
  have a3: "stream ?cA (req_method ?req) (''redirect'', req_query ?req) [] (forwarded_headers ?req) = Inr ?orgA"
    by simp
  have a4: "startswith ''https://httpbin.org/get'' (base_url ?cA @ ''/'')"
    by (simp add: startswith_def)
  have ra: "\<exists>resp. upstream ?req ''httpbin'' ''redirect'' [] (Inr ?cA) = Inr resp
      \<and> map_of (resp_headers resp) ''location'' = Some ''/proxy/httpbin/get''"
    using redirect_containment [OF a1 a2 a3, of "''httpbin''", THEN conjunct1, THEN mp, OF a4]
    by simp
  have b1: "distinct (map fst (origin_headers ?orgB))" by simp
  have b2: "map_of (origin_headers ?orgB) ''location'' = Some ''https://other.example/x''" by simp
  have b3: "stream ?cB (req_method ?req) (''redirect'', req_query ?req) [] (forwarded_headers ?req) = Inr ?orgB"
    by simp
  have b4: "\<not> startswith ''https://other.example/x'' (base_url ?cB @ ''/'')
      \<and> startswith ''https://other.example/x'' ''http''"
    by (simp add: startswith_def)
  have rb: "upstream ?req ''httpbin'' ''redirect'' [] (Inr ?cB)
      = Inl (HTTPException 403 ''Redirect to https://other.example/x not allowed.'')"
    using redirect_containment [OF b1 b2 b3, of "''httpbin''", THEN conjunct2, THEN mp, OF b4]
    by simp
  from ra rb show ?thesis by (intro conjI)
qed

text \<open>
  The claim as written fails twice. A location that starts with the base URL but goes
  on without a slash (another host) is not rewritten: the 403 error is raised. And an
  absolute URL of another scheme is relayed as it is.
\<close>

theorem redirect_containment_counterexample:
  "startswith ''https://httpbin.org.evil.example/x'' ''https://httpbin.org''
   \<and> upstream \<lparr>req_method = ''GET'', req_headers = [], req_query = [], root_path = ''/proxy''\<rparr>
        ''httpbin'' ''redirect'' []
        (Inr \<lparr>base_url = ''https://httpbin.org'',
              stream = (\<lambda>m u b hs. Inr \<lparr>status_code = 302,
                 origin_headers = [(''location'', ''https://httpbin.org.evil.example/x'')],
                 iter_raw = []\<rparr>)\<rparr>)
      = Inl (HTTPException 403 ''Redirect to https://httpbin.org.evil.example/x not allowed.'')
   \<and> upstream \<lparr>req_method = ''GET'', req_headers = [], req_query = [], root_path = ''/proxy''\<rparr>
        ''httpbin'' ''redirect'' []
        (Inr \<lparr>base_url = ''https://httpbin.org'',
              stream = (\<lambda>m u b hs. Inr \<lparr>status_code = 302,
                 origin_headers = [(''location'', ''ftp://files.example/x'')],
                 iter_raw = []\<rparr>)\<rparr>)
      = Inr \<lparr>resp_status_code = 302, resp_body = [],
             resp_headers = [(''location'', ''ftp://files.example/x''), (''content-length'', ''0'')]\<rparr>"
  by code_simp

section \<open>Properties of the session store\<close>

lemma validate_keys_mono:
  "validate lib items apis = Inr apis' \<Longrightarrow> fst ` set apis \<subseteq> fst ` set apis'"
proof (induction items arbitrary: apis)
  case Nil
  then show ?case by simp
next
  case (Cons entry items)
  show ?case
  proof (cases "startswith (fst entry) ''proxy_''")
    case False
    with Cons show ?thesis by simp
  next
    case True
    with Cons.prems obtain c b where
      "validate lib items (setitem apis (replace1 ''proxy_'' [] (fst entry)) b) = Inr apis'"
      by (auto split: sum.splits)
    then have "fst ` set (setitem apis (replace1 ''proxy_'' [] (fst entry)) b) \<subseteq> fst ` set apis'"
      by (rule Cons.IH)
    then show ?thesis by (auto simp: keys_setitem)
  qed
qed

lemma validate_ok:
  "validate lib items apis = Inr apis' \<Longrightarrow> entry \<in> set items \<Longrightarrow> startswith (fst entry) ''proxy_'' \<Longrightarrow>
     (\<exists>c. httpx_client lib (snd entry) = Inr c) \<and> (\<exists>b. getitem (snd entry) ''base_url'' = Inr b)
     \<and> replace1 ''proxy_'' [] (fst entry) \<in> fst ` set apis'"
proof (induction items arbitrary: apis)
  case Nil
  then show ?case by simp
next
  case (Cons e items)
  show ?case
  proof (cases "startswith (fst e) ''proxy_''")
    case False
    with Cons.prems have "validate lib items apis = Inr apis'" "entry \<in> set items" by auto
    then show ?thesis using Cons.prems(3) by (rule Cons.IH)
  next
    case True
    with Cons.prems(1) obtain c b where c: "httpx_client lib (snd e) = Inr c"
      and b: "getitem (snd e) ''base_url'' = Inr b"
      and v: "validate lib items (setitem apis (replace1 ''proxy_'' [] (fst e)) b) = Inr apis'"
      by (auto split: sum.splits)
    show ?thesis
    proof (cases "entry = e")
      case True
      have "replace1 ''proxy_'' [] (fst e) \<in> fst ` set (setitem apis (replace1 ''proxy_'' [] (fst e)) b)"
        by (simp add: keys_setitem)
      with validate_keys_mono [OF v] have "replace1 ''proxy_'' [] (fst e) \<in> fst ` set apis'" by blast
      with True c b show ?thesis by simp
    next
      case False
      with Cons.prems(2) have "entry \<in> set items" by simp
      with v show ?thesis using Cons.prems(3) by (rule Cons.IH)
    qed
  qed
qed

lemma validate_fails:
  assumes "entry \<in> set items" "startswith (fst entry) ''proxy_''" "isl (httpx_client lib (snd entry))"
  shows "isl (validate lib items apis)"
proof (cases "validate lib items apis")
  case (Inl e)
  then show ?thesis by simp
next
  case (Inr apis')
  from validate_ok [OF Inr assms(1,2)] assms(3) show ?thesis by auto
qed

lemma load_session_decoded:
  "b64json_loads lib data = Some decoded \<Longrightarrow>
   load_session lib data config =
     (case validate lib (dict_update config decoded) [] of
        Inl e \<Rightarrow> (Inl e, dict_update config decoded)
      | Inr apis \<Rightarrow>
          (Inr \<lparr>session_config = dict_update config decoded,
                session_base64 = encode_session lib (dict_update config decoded),
                session_apis = apis,
                session_key = sha256_hexdigest lib (encode_session lib (dict_update config decoded))\<rparr>,
           dict_update config decoded))"
  by (simp add: load_session_def Let_def)

text \<open>
  C8. A blob that does not decode gives the error 500 and changes nothing. For a blob
  that decodes: when the construction of the client fails for an entry of the merged
  configuration whose name starts with \<^verbatim>\<open>proxy_\<close>, \<^verbatim>\<open>load_session\<close> raises; and a
  session that it returns holds the whole merged configuration, every \<^verbatim>\<open>proxy_\<close>
  entry of it has a client and stands in \<^verbatim>\<open>apis\<close>. So no session with only some of
  the proxies comes back.
\<close>

theorem session_validation_atomic:
  "(b64json_loads lib data = None \<longrightarrow>
      load_session lib data config = (Inl (HTTPException 500 ''Failed to load session data''), config))
   \<and> (\<forall>decoded. b64json_loads lib data = Some decoded \<longrightarrow>
        ((\<exists>entry\<in>set (dict_update config decoded).
            startswith (fst entry) ''proxy_'' \<and> isl (httpx_client lib (snd entry)))
          \<longrightarrow> isl (fst (load_session lib data config)))
        \<and> (\<forall>s. fst (load_session lib data config) = Inr s \<longrightarrow>
              session_config s = dict_update config decoded
              \<and> (\<forall>entry\<in>set (session_config s). startswith (fst entry) ''proxy_'' \<longrightarrow>
                    (\<exists>c. httpx_client lib (snd entry) = Inr c)
                    \<and> replace1 ''proxy_'' [] (fst entry) \<in> fst ` set (session_apis s))))"
proof (intro conjI allI impI)
  assume "b64json_loads lib data = None"
  then show "load_session lib data config = (Inl (HTTPException 500 ''Failed to load session data''), config)"
    by (simp add: load_session_def)
next
  fix decoded
  assume d: "b64json_loads lib data = Some decoded"
    and "\<exists>entry\<in>set (dict_update config decoded).
            startswith (fst entry) ''proxy_'' \<and> isl (httpx_client lib (snd entry))"
  then obtain entry where "entry \<in> set (dict_update config decoded)"
    "startswith (fst entry) ''proxy_''" "isl (httpx_client lib (snd entry))" by blast
  then have "isl (validate lib (dict_update config decoded) [])" by (rule validate_fails)
  then obtain e where "validate lib (dict_update config decoded) [] = Inl e"
    by (cases "validate lib (dict_update config decoded) []") auto
  then show "isl (fst (load_session lib data config))"
    by (simp add: load_session_decoded [OF d])
next
  fix decoded s
  assume d: "b64json_loads lib data = Some decoded"
    and s: "fst (load_session lib data config) = Inr s"
  then show "session_config s = dict_update config decoded"
    by (auto simp: load_session_decoded [OF d] split: sum.splits)
next
  fix decoded s
  assume d: "b64json_loads lib data = Some decoded"
    and s: "fst (load_session lib data config) = Inr s"
  from d s have v: "validate lib (dict_update config decoded) [] = Inr (session_apis s)"
    and c: "session_config s = dict_update config decoded"
    by (auto simp: load_session_decoded [OF d] split: sum.splits)
  show "\<forall>entry\<in>set (session_config s). startswith (fst entry) ''proxy_'' \<longrightarrow>
                    (\<exists>c. httpx_client lib (snd entry) = Inr c)
                    \<and> replace1 ''proxy_'' [] (fst entry) \<in> fst ` set (session_apis s)"
  proof (intro ballI impI)
    fix entry
    assume e: "entry \<in> set (session_config s)" "startswith (fst entry) ''proxy_''"
    from e c have "entry \<in> set (dict_update config decoded)" by simp
    from validate_ok [OF v this e(2)]
    show "(\<exists>c. httpx_client lib (snd entry) = Inr c)
                    \<and> replace1 ''proxy_'' [] (fst entry) \<in> fst ` set (session_apis s)"
      by blast
  qed
qed

theorem session_validation_atomic_witness:
  "isl (fst (load_session test_library ''eyJwcm94eV9iYWQiOiB7InRpbWVvdXQiOiAxfX0='' default_session))
   \<and> fst (load_session test_library ''e30='' default_session) =
       Inr \<lparr>session_config = default_session, session_base64 = [],
            session_apis = [(''httpbin'', JStr ''https://httpbin.org''),
                            (''jupyter'', JStr ''https://wagov.github.io/wasoc-jupyterlite'')],
            session_key = []\<rparr>
   \<and> (\<exists>c. httpx_client test_library (JObj [(''base_url'', JStr ''https://httpbin.org'')]) = Inr c)
   \<and> replace1 ''proxy_'' [] ''proxy_httpbin''
         \<in> fst ` set [(''httpbin'', JStr ''https://httpbin.org''),
                      (''jupyter'', JStr ''https://wagov.github.io/wasoc-jupyterlite'')]"
proof -
  let ?bad = "''eyJwcm94eV9iYWQiOiB7InRpbWVvdXQiOiAxfX0=''"
  let ?entry = "(''proxy_bad'', JObj [(''timeout'', JNum 1)])"
  let ?s = "\<lparr>session_config = default_session, session_base64 = [],
            session_apis = [(''httpbin'', JStr ''https://httpbin.org''),
                            (''jupyter'', JStr ''https://wagov.github.io/wasoc-jupyterlite'')],
            session_key = []\<rparr>"
  have d1: "b64json_loads test_library ?bad = Some [?entry]"
    by (simp add: test_library_def)
  have m1: "?entry \<in> set (dict_update default_session [?entry])" by code_simp
  have m2: "startswith (fst ?entry) ''proxy_'' \<and> isl (httpx_client test_library (snd ?entry))"
    by code_simp
  from m1 m2 have h1: "\<exists>entry\<in>set (dict_update default_session [?entry]).
      startswith (fst entry) ''proxy_'' \<and> isl (httpx_client test_library (snd entry))"
    by (rule bexI [rotated])
  have r1: "isl (fst (load_session test_library ?bad default_session))"
    using session_validation_atomic [of test_library ?bad default_session,
        THEN conjunct2, THEN spec, THEN mp, OF d1, THEN conjunct1, THEN mp, OF h1] .
  have d2: "b64json_loads test_library ''e30='' = Some []"
    by (simp add: test_library_def)
  have s2: "fst (load_session test_library ''e30='' default_session) = Inr ?s"
    by code_simp
  have "session_config ?s = dict_update default_session []
      \<and> (\<forall>entry\<in>set (session_config ?s). startswith (fst entry) ''proxy_'' \<longrightarrow>
            (\<exists>c. httpx_client test_library (snd entry) = Inr c)
            \<and> replace1 ''proxy_'' [] (fst entry) \<in> fst ` set (session_apis ?s))"
    using session_validation_atomic [of test_library "''e30=''" default_session,
        THEN conjunct2, THEN spec, THEN mp, OF d2, THEN conjunct2, THEN spec, THEN mp, OF s2] .
  then have r2: "\<forall>entry\<in>set (session_config ?s). startswith (fst entry) ''proxy_'' \<longrightarrow>
            (\<exists>c. httpx_client test_library (snd entry) = Inr c)
            \<and> replace1 ''proxy_'' [] (fst entry) \<in> fst ` set (session_apis ?s)"
    by (rule conjunct2)
  let ?e = "(''proxy_httpbin'', JObj [(''base_url'', JStr ''https://httpbin.org'')])"
  have m3: "?e \<in> set (session_config ?s)" by (simp add: default_session_def)
  have m4: "startswith (fst ?e) ''proxy_''" by (simp add: startswith_def)
  from r2 m3 m4 have "(\<exists>c. httpx_client test_library (snd ?e) = Inr c)
      \<and> replace1 ''proxy_'' [] (fst ?e) \<in> fst ` set (session_apis ?s)"
    by blast
  then have r2': "(\<exists>c. httpx_client test_library (JObj [(''base_url'', JStr ''https://httpbin.org'')]) = Inr c)
      \<and> replace1 ''proxy_'' [] ''proxy_httpbin''
         \<in> fst ` set [(''httpbin'', JStr ''https://httpbin.org''),
                      (''jupyter'', JStr ''https://wagov.github.io/wasoc-jupyterlite'')]"
    by (simp only: fst_conv snd_conv session.simps)
  from r1 s2 r2' [THEN conjunct1] r2' [THEN conjunct2] show ?thesis by (intro conjI)
qed

text \<open>
  The key of a session is the hash of the encoding of its configuration with the keys
  in order, and of nothing else.
\<close>

lemma load_session_key:
  "fst (load_session lib data config) = Inr s \<Longrightarrow>
     session_base64 s = b64json_dumps lib (sort_keys (JObj (session_config s)))
     \<and> session_key s = sha256_hexdigest lib (b64json_dumps lib (sort_keys (JObj (session_config s))))"
  by (auto simp: load_session_def Let_def encode_session_def split: option.splits sum.splits)

lemma map_of_dict_update: "map_of (dict_update c d) = map_of c ++ map_of (rev d)"
proof (induction d arbitrary: c)
  case Nil
  show ?case by simp
next
  case (Cons item d)
  have a: "map_of (rev (item # d)) = map_of [item] ++ map_of (rev d)"
    by (simp add: map_of_append)
  have b: "map_of c ++ map_of [item] = (map_of c)(fst item \<mapsto> snd item)"
    by (cases item) simp
  have "map_of (dict_update c (item # d)) = map_of (setitem c (fst item) (snd item)) ++ map_of (rev d)"
    by (simp add: Cons)
  also have "\<dots> = (map_of c ++ map_of [item]) ++ map_of (rev d)"
    by (simp only: map_of_setitem b)
  also have "\<dots> = map_of c ++ map_of (rev (item # d))"
    by (simp only: a map_add_assoc)
  finally show ?case .
qed

lemma setitem_same: "map_of c k = Some v \<Longrightarrow> setitem c k v = c"
  by (induction c) (auto split: if_splits)

lemma dict_update_same:
  "\<forall>item\<in>set d. map_of c (fst item) = Some (snd item) \<Longrightarrow> dict_update c d = c"
  by (induction d) (simp_all add: setitem_same)

lemma dict_update_twice:
  assumes "distinct (map fst d)"
  shows "dict_update (dict_update c d) d = dict_update c d"
proof (rule dict_update_same, rule ballI)
  fix item
  assume "item \<in> set d"
  then have "(fst item, snd item) \<in> set (rev d)" by simp
  moreover have "distinct (map fst (rev d))" using assms by (metis distinct_rev rev_map)
  ultimately have "map_of (rev d) (fst item) = Some (snd item)" by simp
  then show "map_of (dict_update c d) (fst item) = Some (snd item)"
    by (simp add: map_of_dict_update)
qed

text \<open>
  Two calls in a row on the same blob (a JSON object, so each key once) give the same
  outcome, the key with it: the second finds the dict as the first left it, and
  merging the blob again changes nothing.
\<close>

lemma load_session_twice:
  assumes "b64json_loads lib data = Some decoded" "distinct (map fst decoded)"
  shows "load_session lib data (snd (load_session lib data config)) = load_session lib data config"
proof -
  have "snd (load_session lib data config) = dict_update config decoded"
    by (cases "validate lib (dict_update config decoded) []")
      (simp_all add: load_session_decoded [OF assms(1)])
  then show ?thesis
    by (cases "validate lib (dict_update config decoded) []")
      (simp_all add: load_session_decoded [OF assms(1)] dict_update_twice [OF assms(2)])
qed

text \<open>
  C1 fails on the code. \<^verbatim>\<open>load_session\<close> merges each blob into the one dict that is the
  default value of its parameter, so a call sees what earlier calls merged. After the
  blob \<^verbatim>\<open>{"main_path": "/x"}\<close>, the empty blob \<^verbatim>\<open>{}\<close> resolves to a configuration with
  \<^verbatim>\<open>main_path\<close> \<^verbatim>\<open>/x\<close>; in a fresh process the same blob resolves to the hard-coded
  default path.
\<close>

theorem load_session_remembers_earlier_blobs:
  "map (map_sum id (\<lambda>s. map_of (session_config s) ''main_path''))
       (resolve_all test_library [''eyJtYWluX3BhdGgiOiAiL3gifQ=='', ''e30=''] default_session)
     = [Inr (Some (JStr ''/x'')), Inr (Some (JStr ''/x''))]
   \<and> map (map_sum id (\<lambda>s. map_of (session_config s) ''main_path''))
       (resolve_all test_library [''e30=''] default_session)
     = [Inr (Some (JStr ''/jupyter/lab/index.html''))]"
  by code_simp

section \<open>Properties of the caches\<close>


lemma filter_keys_length:
  assumes "distinct (map fst q)" "key \<in> fst ` set q"
  shows "length (filter (\<lambda>kv. fst kv \<noteq> key) q) + 1 = length q"
  using assms
proof (induction q)
  case Nil
  then show ?case by simp
next
  case (Cons a q)
  show ?case
  proof (cases "fst a = key")
    case True
    with Cons.prems have "key \<notin> fst ` set q" by auto
    then have "filter (\<lambda>kv. fst kv \<noteq> key) q = q" by (induction q) auto
    with True show ?thesis by simp
  next
    case False
    with Cons show ?thesis by auto
  qed
qed

lemma touch_distinct:
  "distinct (map fst q) \<Longrightarrow> distinct (map fst (filter (\<lambda>kv. fst kv \<noteq> key) q @ [(key, x)]))"
  by (induction q) auto


lemma assign_touched:
  "assign key x (c\<lparr>queue := filter (\<lambda>kv. fst kv \<noteq> key) q @ [(key, r)]\<rparr>)
     = c\<lparr>queue := filter (\<lambda>kv. fst kv \<noteq> key) q @ [(key, x)]\<rparr>"
proof -
  have "map (\<lambda>kv. if fst kv = key then (key, x) else kv) (filter (\<lambda>kv. fst kv \<noteq> key) q)
      = filter (\<lambda>kv. fst kv \<noteq> key) q"
    by (induction q) auto
  then show ?thesis by (simp add: assign_def)
qed


lemma lru_hit:
  "maxsize \<noteq> 0 \<Longrightarrow> map_of (queue c) key = Some r \<Longrightarrow>
   lru_cache maxsize uf key (c, w) =
     (Inr r, c\<lparr>queue := filter (\<lambda>kv. fst kv \<noteq> key) (queue c) @ [(key, r)]\<rparr>, w)"
  by (simp add: lru_cache_def)

lemma wrapper_fresh:
  "maxsize \<noteq> 0 \<Longrightarrow> map_of (queue c) key = Some r \<Longrightarrow> \<not> death r < monotonic w \<Longrightarrow>
   wrapper maxsize ttl func monotonic key (c, w) =
     (Inr (value r), c\<lparr>queue := filter (\<lambda>kv. fst kv \<noteq> key) (queue c) @ [(key, r)]\<rparr>, w)"
  by (simp add: wrapper_def lru_hit)

lemma wrapper_stale:
  "maxsize \<noteq> 0 \<Longrightarrow> map_of (queue c) key = Some r \<Longrightarrow> death r < monotonic w \<Longrightarrow>
   func key w = (Inr v, w') \<Longrightarrow>
   wrapper maxsize ttl func monotonic key (c, w) =
     (Inr v, c\<lparr>queue := filter (\<lambda>kv. fst kv \<noteq> key) (queue c)
                   @ [(key, \<lparr>value = v, death = monotonic w' + ttl\<rparr>)]\<rparr>, w')"
  by (simp add: wrapper_def lru_hit assign_touched)



lemma lookup_present: "map_of q key = Some r \<Longrightarrow> key \<in> fst ` set q"
  by (metis map_of_eq_None_iff option.distinct(1))

lemma inv_nonzero: "lru_inv maxsize c \<Longrightarrow> key \<in> fst ` set (queue c) \<Longrightarrow> maxsize \<noteq> 0"
  by (auto simp: lru_inv_def)



















lemma memoize_hit:
  assumes "map_of c key = Some (v', x)" "\<not> expired t0 x" "timer w = t0"
  shows "memoize maxsize ttl func timer key (c, w) = (Inr v', c, w)"
  using assms by (simp add: memoize_def cacheout_get_def)










text \<open>
  C6, as the code has it. For a key the cache holds: a read no later than the death
  of the entry (its creation plus ttl) returns the stored value and leaves the world
  as it was, so the function did not run; a read later than that runs the function
  once (the world is the one after that single call), writes the new value and the
  new death into the entry, and returns the new value. Either way the key stays once
  in the cache, now as the most recently used entry.
\<close>

theorem cache_ttl:
  assumes "lru_inv maxsize c" and "map_of (queue c) key = Some r"
  shows "(monotonic w \<le> death r \<longrightarrow>
            wrapper maxsize ttl func monotonic key (c, w) =
              (Inr (value r), c\<lparr>queue := filter (\<lambda>kv. fst kv \<noteq> key) (queue c) @ [(key, r)]\<rparr>, w))
       \<and> (death r < monotonic w \<and> func key w = (Inr v, w') \<longrightarrow>
            wrapper maxsize ttl func monotonic key (c, w) =
              (Inr v, c\<lparr>queue := filter (\<lambda>kv. fst kv \<noteq> key) (queue c)
                            @ [(key, \<lparr>value = v, death = monotonic w' + ttl\<rparr>)]\<rparr>, w'))
       \<and> length (filter (\<lambda>kv. fst kv \<noteq> key) (queue c) @ [(key, x)]) = length (queue c)
       \<and> distinct (map fst (filter (\<lambda>kv. fst kv \<noteq> key) (queue c) @ [(key, x)]))"
proof (intro conjI impI)
  have k: "key \<in> fst ` set (queue c)" using assms(2) by (rule lookup_present)
  with assms(1) have m: "maxsize \<noteq> 0" by (rule inv_nonzero)
  have d: "distinct (map fst (queue c))" using assms(1) by (simp add: lru_inv_def)
  {
    assume "monotonic w \<le> death r"
    then have "\<not> death r < monotonic w" by simp
    with m assms(2) show "wrapper maxsize ttl func monotonic key (c, w) =
              (Inr (value r), c\<lparr>queue := filter (\<lambda>kv. fst kv \<noteq> key) (queue c) @ [(key, r)]\<rparr>, w)"
      by (rule wrapper_fresh)
  }
  {
    assume "death r < monotonic w \<and> func key w = (Inr v, w')"
    then have "death r < monotonic w" "func key w = (Inr v, w')" by simp_all
    with m assms(2) show "wrapper maxsize ttl func monotonic key (c, w) =
              (Inr v, c\<lparr>queue := filter (\<lambda>kv. fst kv \<noteq> key) (queue c)
                            @ [(key, \<lparr>value = v, death = monotonic w' + ttl\<rparr>)]\<rparr>, w')"
      by (rule wrapper_stale)
  }
  show "length (filter (\<lambda>kv. fst kv \<noteq> key) (queue c) @ [(key, x)]) = length (queue c)"
    using filter_keys_length [OF d k] by simp
  show "distinct (map fst (filter (\<lambda>kv. fst kv \<noteq> key) (queue c) @ [(key, x)]))"
    using d by (rule touch_distinct)
qed

theorem cache_ttl_witness:
  "lru_inv 2000 \<lparr>queue = [(''k'', \<lparr>value = 0 :: nat, death = 300\<rparr>)], full = False\<rparr>
   \<and> wrapper 2000 300 count_calls fst ''k''
        (\<lparr>queue = [(''k'', \<lparr>value = 0, death = 300\<rparr>)], full = False\<rparr>, (299, 1))
      = (Inr 0, \<lparr>queue = [(''k'', \<lparr>value = 0, death = 300\<rparr>)], full = False\<rparr>, (299, 1))
   \<and> wrapper 2000 300 count_calls fst ''k''
        (\<lparr>queue = [(''k'', \<lparr>value = 0, death = 300\<rparr>)], full = False\<rparr>, (301, 1))
      = (Inr 1, \<lparr>queue = [(''k'', \<lparr>value = 1, death = 601\<rparr>)], full = False\<rparr>, (301, 2))"
proof -
  let ?r = "\<lparr>value = 0 :: nat, death = 300\<rparr>"
  let ?c = "\<lparr>queue = [(''k'', ?r)], full = False\<rparr>"
  have i: "lru_inv 2000 ?c" by (simp add: lru_inv_def)
  have l: "map_of (queue ?c) ''k'' = Some ?r" by simp
  have f1: "fst (299 :: int, 1 :: nat) \<le> death ?r" by simp
  have f2: "death ?r < fst (301 :: int, 1 :: nat) \<and> count_calls ''k'' (301, 1) = (Inr 1, (301, 2))"
    by (simp add: count_calls_def)
  have a: "wrapper 2000 300 count_calls fst ''k'' (?c, (299, 1)) = (Inr 0, ?c, (299, 1))"
    using cache_ttl [OF i l, where monotonic = fst and w = "(299, 1)" and ttl = 300
        and func = count_calls, THEN conjunct1, THEN mp, OF f1]
    by simp
  have b: "wrapper 2000 300 count_calls fst ''k'' (?c, (301, 1))
      = (Inr 1, \<lparr>queue = [(''k'', \<lparr>value = 1, death = 601\<rparr>)], full = False\<rparr>, (301, 2))"
    using cache_ttl [OF i l, where monotonic = fst and w = "(301, 1)" and ttl = 300
        and func = count_calls and v = 1 and w' = "(301, 2)",
        THEN conjunct2, THEN conjunct1, THEN mp, OF f2]
    by simp
  from i a b show ?thesis by (intro conjI)
qed

text \<open>
  The claim as written fails at the instant of expiry. An entry made at time 0 with a
  ttl of 300 dies at 300; the test is \<^verbatim>\<open>result.death < time.monotonic()\<close>, so a read
  at 300 still returns the stored value and the function has run once, not twice.
\<close>

theorem cache_ttl_counterexample:
  "wrapper 2000 300 count_calls fst ''k''
     (at_time 300 (snd (wrapper 2000 300 count_calls fst ''k'' (cache_clear, (0, 0)))))
   = (Inr 0, \<lparr>queue = [(''k'', \<lparr>value = 0, death = 300\<rparr>)], full = False\<rparr>, (300, 1))"
  by code_simp




end
